theory Spec2Isabelle
  imports Main "HOL-Library.Multiset"
begin

section \<open>Shallow embedding of \<^verbatim>\<open>mirror_playlists.py\<close>\<close>

subsection \<open>Python list primitives used by the batch partition\<close>

text \<open>
  \<^verbatim>\<open>range(start, stop, step)\<close> for a positive step, as the list of the values it
  yields. The source only calls it with the literal step 50; a step of 0 (for which
  Python raises) yields nothing here.
\<close>

function py_range :: "nat \<Rightarrow> nat \<Rightarrow> nat \<Rightarrow> nat list" where
  "py_range start stop step =
     (if step = 0 \<or> stop \<le> start then []
      else start # py_range (start + step) stop step)"
  by pat_completeness auto
termination
  by (relation "measure (\<lambda>(start, stop, step). stop - start)") auto

declare py_range.simps [simp del]

text \<open>
  The slice \<^verbatim>\<open>xs[i:j]\<close> for \<open>0 \<le> i \<le> j\<close>: Python clips both ends to the
  length of the list and never raises.
\<close>

definition py_slice :: "'a list \<Rightarrow> nat \<Rightarrow> nat \<Rightarrow> 'a list" where
  "py_slice xs i j = take (j - i) (drop i xs)"

definition batch_size :: nat where
  "batch_size = 50"

text \<open>
  \<^verbatim>\<open>batches = [items[i:i + batch_size] for i in range(0, len(items), batch_size)]\<close>
  (lines 141-142 of the source).
\<close>

definition make_batches :: "'a list \<Rightarrow> 'a list list" where
  "make_batches items =
     map (\<lambda>i. py_slice items i (i + batch_size)) (py_range 0 (length items) batch_size)"

subsection \<open>Python string primitives\<close>

text \<open>
  Strings are lists of characters. Every operation the source applies to them compares
  characters for equality only, so the byte-level reading of a UTF-8 text behaves as the
  code-point reading does.
\<close>

text \<open>\<open>strip_prefix p s\<close> is \<open>Some r\<close> when \<open>s\<close> starts with \<open>p\<close> and \<open>r\<close> is what follows.\<close>

fun strip_prefix :: "string \<Rightarrow> string \<Rightarrow> string option" where
  "strip_prefix [] s = Some s"
| "strip_prefix (p # ps) [] = None"
| "strip_prefix (p # ps) (c # cs) = (if p = c then strip_prefix ps cs else None)"

text \<open>\<^verbatim>\<open>sub in s\<close>: the substring test of line 82.\<close>

fun str_contains :: "string \<Rightarrow> string \<Rightarrow> bool" where
  "str_contains sub [] = (sub = [])"
| "str_contains sub (c # cs) = (strip_prefix sub (c # cs) \<noteq> None \<or> str_contains sub cs)"

text \<open>
  \<^verbatim>\<open>s.replace(old, new)\<close>: every non-overlapping occurrence of \<open>old\<close>, scanning from the
  left, is replaced. For an empty \<open>old\<close> Python puts \<open>new\<close> before every character and at
  the end.
\<close>

function str_replace :: "string \<Rightarrow> string \<Rightarrow> string \<Rightarrow> string" where
  "str_replace old new s =
     (if old = [] then new @ concat (map (\<lambda>c. c # new) s)
      else case strip_prefix old s of
             Some rest \<Rightarrow> new @ str_replace old new rest
           | None \<Rightarrow> (case s of [] \<Rightarrow> [] | c # cs \<Rightarrow> c # str_replace old new cs))"
  by pat_completeness auto
termination
proof (relation "measure (\<lambda>(old, new, s). length s)")
  show "wf (measure (\<lambda>(old, new, s). length s))" by simp
next
  fix old new :: string and s rest :: string
  assume ne: "old \<noteq> []" and sp: "strip_prefix old s = Some rest"
  have "strip_prefix p t = Some r \<Longrightarrow> length t = length p + length r" for p t r
    by (induction p t rule: strip_prefix.induct) (auto split: if_splits)
  from this [OF sp] ne
  show "((old, new, rest), (old, new, s)) \<in> measure (\<lambda>(old, new, s). length s)"
    by simp
next
  fix old new :: string and s :: string and c cs
  assume "s = c # cs"
  then show "((old, new, cs), (old, new, s)) \<in> measure (\<lambda>(old, new, s). length s)"
    by simp
qed

declare str_replace.simps [simp del]

text \<open>\<^verbatim>\<open>sep.join(xs)\<close>.\<close>

fun str_join :: "string \<Rightarrow> string list \<Rightarrow> string" where
  "str_join sep [] = []"
| "str_join sep [x] = x"
| "str_join sep (x # y # ys) = x @ sep @ str_join sep (y # ys)"

text \<open>\<^verbatim>\<open>s.split(sep)\<close> for a one-character separator: never an empty list.\<close>

fun str_split :: "char \<Rightarrow> string \<Rightarrow> string list" where
  "str_split sep [] = [[]]"
| "str_split sep (c # cs) =
     (if c = sep then [] # str_split sep cs
      else (case str_split sep cs of
              [] \<Rightarrow> [[c]]
            | w # ws \<Rightarrow> (c # w) # ws))"

subsection \<open>The icon pattern\<close>

definition dquote :: char where
  "dquote = CHR 0x22"

text \<open>
  The regular expression of line 83,
  \<^verbatim>\<open>tvg-logo="(https?://epg\.one/img/([^"]+))"\<close>, tried at the start of a string.
  No alternative of it needs backtracking: after \<^verbatim>\<open>http\<close> an \<^verbatim>\<open>s\<close> is consumed when
  it is there (without it the next character would have to be \<^verbatim>\<open>:\<close>), and the greedy
  class \<^verbatim>\<open>[^"]+\<close> must take the whole non-empty run of characters other than the
  double quote, which a double quote has to follow. The result is the pair of the
  two groups: the matched URL and the path.
\<close>

definition match_optional_s :: "string \<Rightarrow> string \<times> string" where
  "match_optional_s r =
     (case r of
        c # t \<Rightarrow> if c = CHR ''s'' then (''s'', t) else ([], r)
      | [] \<Rightarrow> ([], r))"

definition match_here :: "string \<Rightarrow> (string \<times> string) option" where
  "match_here s =
     (case strip_prefix (''tvg-logo='' @ [dquote]) s of
        None \<Rightarrow> None
      | Some r1 \<Rightarrow>
         (case strip_prefix ''http'' r1 of
            None \<Rightarrow> None
          | Some r2 \<Rightarrow>
             (case match_optional_s r2 of
                (opt_s, r3) \<Rightarrow>
                  (case strip_prefix ''://epg.one/img/'' r3 of
                     None \<Rightarrow> None
                   | Some r4 \<Rightarrow>
                      (let icon_path = takeWhile (\<lambda>c. c \<noteq> dquote) r4;
                           r5 = dropWhile (\<lambda>c. c \<noteq> dquote) r4
                       in if icon_path = [] \<or> r5 = [] then None
                          else Some (''http'' @ opt_s @ ''://epg.one/img/'' @ icon_path,
                                     icon_path))))))"

text \<open>\<^verbatim>\<open>re.search\<close>: the match at the leftmost position that has one.\<close>

fun re_search :: "string \<Rightarrow> (string \<times> string) option" where
  "re_search [] = match_here []"
| "re_search (c # cs) =
     (case match_here (c # cs) of
        Some m \<Rightarrow> Some m
      | None \<Rightarrow> re_search cs)"

subsection \<open>Paths and dictionaries\<close>

text \<open>
  A \<^verbatim>\<open>pathlib\<close> POSIX path in its parsed form: the root (empty, \<^verbatim>\<open>/\<close> or \<^verbatim>\<open>//\<close>) and the
  components. Two paths are equal in Python exactly when these agree.
\<close>

datatype py_path = PyPath (path_root: string) (path_parts: "string list")

text \<open>
  The components of a relative string: split at \<^verbatim>\<open>/\<close>, without the empty components
  and the \<^verbatim>\<open>.\<close> components.
\<close>

definition rel_parts :: "string \<Rightarrow> string list" where
  "rel_parts s = filter (\<lambda>x. x \<noteq> [] \<and> x \<noteq> ''.'') (str_split (CHR ''/'') s)"

text \<open>\<^verbatim>\<open>Path(s)\<close>: one leading slash or three and more make the root \<^verbatim>\<open>/\<close>, exactly two \<^verbatim>\<open>//\<close>.\<close>

definition Path :: "string \<Rightarrow> py_path" where
  "Path s =
     (case s of
        [] \<Rightarrow> PyPath [] []
      | c # r \<Rightarrow>
          if c \<noteq> CHR ''/'' then PyPath [] (rel_parts s)
          else if take 1 r \<noteq> ''/'' \<or> take 1 (drop 1 r) = ''/'' then PyPath ''/'' (rel_parts r)
          else PyPath ''//'' (rel_parts (drop 1 r)))"

text \<open>
  \<^verbatim>\<open>p / key\<close> for a string \<open>key\<close>: a key that starts with a slash is absolute and replaces
  \<open>p\<close>; any other key adds its components to those of \<open>p\<close>.
\<close>

definition path_div :: "py_path \<Rightarrow> string \<Rightarrow> py_path" where
  "path_div p key =
     (if take 1 key = ''/'' then Path key
      else PyPath (path_root p) (path_parts p @ rel_parts key))"

text \<open>
  A \<^verbatim>\<open>dict\<close> as the list of its items in insertion order. \<^verbatim>\<open>d[k] = v\<close> overwrites the
  value of a key that is there, in its place, and appends a new key at the end.
\<close>

type_synonym ('k, 'v) dict = "('k \<times> 'v) list"

fun dict_set :: "'k \<Rightarrow> 'v \<Rightarrow> ('k, 'v) dict \<Rightarrow> ('k, 'v) dict" where
  "dict_set k v [] = [(k, v)]"
| "dict_set k v ((k', v') # d) =
     (if k' = k then (k, v) # d else (k', v') # dict_set k v d)"

subsection \<open>Module constants\<close>

definition PLAYLIST_URLS :: "string list" where
  "PLAYLIST_URLS =
     [''http://epg.one/edem_epg_ico.m3u8'',
      ''http://epg.one/edem_epg_ico2.m3u8'',
      ''http://epg.one/edem_epg_ico3.m3u8'']"

definition ICONS_SQR_DIR :: py_path where
  "ICONS_SQR_DIR = Path ''img''"

definition ICONS_RECT_DIR :: py_path where
  "ICONS_RECT_DIR = Path ''img2''"

definition NEW_ICONS_BASE_URL_SQR :: string where
  "NEW_ICONS_BASE_URL_SQR =
     ''https://raw.githubusercontent.com/KocourKuba/epgone_mirror/master/img/''"

subsection \<open>Exceptions\<close>

text \<open>
  The exception classes that occur. \<open>RequestException\<close> stands for
  \<^verbatim>\<open>requests.RequestException\<close> and its subclasses (connection errors, timeouts of a
  request, \<^verbatim>\<open>HTTPError\<close> from \<^verbatim>\<open>raise_for_status\<close>); \<open>OSError\<close> for an \<^verbatim>\<open>OSError\<close> that is
  none of these; \<open>TimeoutError\<close> for \<^verbatim>\<open>concurrent.futures.TimeoutError\<close>;
  \<open>KeyboardInterrupt\<close> for the exceptions that are no subclass of \<^verbatim>\<open>Exception\<close>.
\<close>

datatype py_exn = ValueError | RequestException | OSError | TimeoutError | KeyboardInterrupt

definition is_Exception :: "py_exn \<Rightarrow> bool" where
  "is_Exception e = (e \<noteq> KeyboardInterrupt)"

subsection \<open>Rewriting one playlist\<close>

text \<open>
  The variables of the loop over the lines of one playlist (lines 78-96);
  \<open>original_icons\<close> is shared by all playlists.
\<close>

record rewrite_state =
  original_icons :: "(string, py_path) dict"
  processed_lines :: "string list"
  replacements_count :: nat
  not_replaced_count :: nat

text \<open>The body of the loop, lines 82-96.\<close>

definition process_line :: "rewrite_state \<Rightarrow> string \<Rightarrow> rewrite_state" where
  "process_line st line =
     (if str_contains (''tvg-logo='' @ [dquote]) line then
        (case re_search line of
           Some (old_icon_url, icon_path) \<Rightarrow>
             (let icons1 = dict_set old_icon_url (path_div ICONS_SQR_DIR icon_path)
                             (original_icons st);
                  icons2 = dict_set (str_replace ''/img/'' ''/img2/'' old_icon_url)
                             (path_div ICONS_RECT_DIR icon_path) icons1;
                  new_icon_url = NEW_ICONS_BASE_URL_SQR @ icon_path;
                  line' = str_replace old_icon_url new_icon_url line
              in st\<lparr>original_icons := icons2,
                    processed_lines := processed_lines st @ [line'],
                    replacements_count := replacements_count st + 1\<rparr>)
         | None \<Rightarrow>
             st\<lparr>processed_lines := processed_lines st @ [line],
                not_replaced_count := not_replaced_count st + 1\<rparr>)
      else st\<lparr>processed_lines := processed_lines st @ [line]\<rparr>)"

text \<open>The loop of line 81 over \<^verbatim>\<open>playlist_lines\<close>, from the counters and the list of line 78-80.\<close>

definition process_lines :: "(string, py_path) dict \<Rightarrow> string list \<Rightarrow> rewrite_state" where
  "process_lines icons playlist_lines =
     foldl process_line
       \<lparr>original_icons = icons, processed_lines = [],
        replacements_count = 0, not_replaced_count = 0\<rparr>
       playlist_lines"

text \<open>
  \<^verbatim>\<open>os.path.basename(urlparse(url).path)\<close> for a URL that starts with a scheme, as every
  entry of \<open>PLAYLIST_URLS\<close> does: the scheme goes up to the first colon, the host from
  \<^verbatim>\<open>//\<close> to the next \<^verbatim>\<open>/\<close>, \<^verbatim>\<open>?\<close> or \<^verbatim>\<open>#\<close>; the fragment, the query and the parameters of
  the last segment are cut off, and the base name is what follows the last slash.
\<close>

definition url_basename :: "string \<Rightarrow> string" where
  "url_basename url =
     (let after_scheme = drop 1 (dropWhile (\<lambda>c. c \<noteq> CHR '':'') url);
          after_host =
            (case strip_prefix ''//'' after_scheme of
               Some r \<Rightarrow> dropWhile (\<lambda>c. c \<noteq> CHR ''/'' \<and> c \<noteq> CHR ''?'' \<and> c \<noteq> CHR ''#'') r
             | None \<Rightarrow> after_scheme);
          no_fragment = takeWhile (\<lambda>c. c \<noteq> CHR ''#'') after_host;
          no_query = takeWhile (\<lambda>c. c \<noteq> CHR ''?'') no_fragment
      in takeWhile (\<lambda>c. c \<noteq> CHR '';'') (last (str_split (CHR ''/'') no_query)))"

subsection \<open>Downloading the icons\<close>

text \<open>
  What the world outside the program does during the download phase.
  \<^item> \<open>mkdir_parent\<close>, \<open>session_get\<close>, \<open>write_file\<close>: the exception, if any, that the three
    steps of one download raise: \<^verbatim>\<open>save_path.parent.mkdir\<close> (line 127), \<^verbatim>\<open>session.get\<close>
    with \<^verbatim>\<open>raise_for_status\<close> (lines 128-129), and opening and writing the file
    (lines 130-132).
  \<^item> \<open>worker_flag i k\<close>: the value of \<^verbatim>\<open>timeout_handler.is_timeout\<close> that the worker of
    batch \<open>i\<close> reads at its \<open>k\<close>-th job (line 124); \<open>main_flag k\<close>: the value the
    controlling thread reads at its \<open>k\<close>-th harvested batch (line 164). The alarm handler
    sets the flag at a moment of its own, so any values may be read.
  \<^item> \<open>completions\<close>: what the iterator \<^verbatim>\<open>as_completed(future_to_batch, timeout=...)\<close> does
    at each step of the loop of line 163, until it is exhausted: it yields the future
    of a finished batch, or, when its timeout has passed and futures are pending, it
    raises \<^verbatim>\<open>TimeoutError\<close>.
\<close>

datatype harvest_event = Completed nat | WaitTimeout

record download_env =
  mkdir_parent :: "py_path \<Rightarrow> py_exn option"
  session_get :: "string \<Rightarrow> py_exn option"
  write_file :: "string \<Rightarrow> py_path \<Rightarrow> py_exn option"
  worker_flag :: "nat \<Rightarrow> nat \<Rightarrow> bool"
  main_flag :: "nat \<Rightarrow> bool"
  completions :: "harvest_event list"

text \<open>The body of the \<^verbatim>\<open>try\<close> of lines 127-132: the first step that raises ends it.\<close>

definition icon_try_body :: "download_env \<Rightarrow> string \<Rightarrow> py_path \<Rightarrow> py_exn + unit" where
  "icon_try_body env url save_path =
     (case mkdir_parent env save_path of
        Some e \<Rightarrow> Inl e
      | None \<Rightarrow>
         (case session_get env url of
            Some e \<Rightarrow> Inl e
          | None \<Rightarrow>
             (case write_file env url save_path of
                Some e \<Rightarrow> Inl e
              | None \<Rightarrow> Inr ())))"

text \<open>
  The loop of \<^verbatim>\<open>download_icon_batch\<close> (lines 123-135), at its \<open>k\<close>-th job with the count
  \<open>success\<close>: the flag ends the loop (\<^verbatim>\<open>break\<close>), the bare \<^verbatim>\<open>except\<close> catches every
  exception of the body and goes on with the next job.
\<close>

fun batch_loop ::
  "download_env \<Rightarrow> (nat \<Rightarrow> bool) \<Rightarrow> nat \<Rightarrow> nat \<Rightarrow> (string \<times> py_path) list \<Rightarrow> py_exn + nat"
where
  "batch_loop env is_timeout k success [] = Inr success"
| "batch_loop env is_timeout k success ((url, save_path) # rest) =
     (if is_timeout k then Inr success
      else (case icon_try_body env url save_path of
              Inr u \<Rightarrow> batch_loop env is_timeout (Suc k) (success + 1) rest
            | Inl e \<Rightarrow> batch_loop env is_timeout (Suc k) success rest))"

definition download_icon_batch ::
  "download_env \<Rightarrow> (nat \<Rightarrow> bool) \<Rightarrow> (string \<times> py_path) list \<Rightarrow> py_exn + nat"
where
  "download_icon_batch env is_timeout batch_items = batch_loop env is_timeout 0 0 batch_items"

text \<open>
  The loop of lines 163-178 over the iterator, at its \<open>k\<close>-th step with the tally
  \<open>total_downloaded\<close>; \<open>results\<close> holds the outcome of every submitted batch by index.
  \<^item> The iterator is exhausted: the loop ends.
  \<^item> The iterator raises \<^verbatim>\<open>TimeoutError\<close>: the \<^verbatim>\<open>for\<close> statement itself raises, outside
    the \<^verbatim>\<open>try\<close> of line 166, and the exception leaves the loop.
  \<^item> It yields a finished future: the flag ends the loop (\<^verbatim>\<open>break\<close>); otherwise
    \<^verbatim>\<open>future.result\<close> returns the count of the batch at once, or raises what the batch
    raised, which lines 175-178 catch when it is an \<^verbatim>\<open>Exception\<close>.
  The iterator yields submitted futures only; an index outside \<open>results\<close> is passed over.
\<close>

fun harvest_loop ::
  "(py_exn + nat) list \<Rightarrow> (nat \<Rightarrow> bool) \<Rightarrow> nat \<Rightarrow> nat \<Rightarrow> harvest_event list \<Rightarrow> py_exn + nat"
where
  "harvest_loop results is_timeout k total_downloaded [] = Inr total_downloaded"
| "harvest_loop results is_timeout k total_downloaded (WaitTimeout # evs) = Inl TimeoutError"
| "harvest_loop results is_timeout k total_downloaded (Completed batch_idx # evs) =
     (if is_timeout k then Inr total_downloaded
      else if batch_idx < length results then
        (case results ! batch_idx of
           Inr successful \<Rightarrow>
             harvest_loop results is_timeout (Suc k) (total_downloaded + successful) evs
         | Inl e \<Rightarrow>
             if e = TimeoutError \<or> is_Exception e
             then harvest_loop results is_timeout (Suc k) total_downloaded evs
             else Inl e)
      else harvest_loop results is_timeout (Suc k) total_downloaded evs)"

text \<open>
  \<^verbatim>\<open>run_download_worker\<close> (lines 138-180). Every batch is submitted to the pool, batch
  \<open>i\<close> running \<^verbatim>\<open>download_icon_batch\<close> on its own thread. An exception that leaves the
  harvest loop passes through the three \<^verbatim>\<open>with\<close> blocks (which wait for the workers,
  close the session and reset the alarm) and leaves the function; otherwise line 180
  reports the tally \<open>total_downloaded\<close>, which is the result here.
\<close>

definition batch_results :: "download_env \<Rightarrow> (string \<times> py_path) list list \<Rightarrow> (py_exn + nat) list" where
  "batch_results env batches =
     map (\<lambda>(i, batch). download_icon_batch env (worker_flag env i) batch)
       (zip [0..<length batches] batches)"

definition run_download_worker :: "download_env \<Rightarrow> (string, py_path) dict \<Rightarrow> py_exn + nat" where
  "run_download_worker env icons =
     (let items = icons;
          batches = make_batches items
      in harvest_loop (batch_results env batches) (main_flag env) 0 0 (completions env))"

text \<open>The batch indices of the futures that a run of the iterator yields, in order.\<close>

fun completed_indices :: "harvest_event list \<Rightarrow> nat list" where
  "completed_indices [] = []"
| "completed_indices (Completed i # evs) = i # completed_indices evs"
| "completed_indices (WaitTimeout # evs) = completed_indices evs"

text \<open>The jobs of a list whose download raises nothing: the fetches that succeed.\<close>

definition fetched_ok :: "download_env \<Rightarrow> (string \<times> py_path) list \<Rightarrow> (string \<times> py_path) list" where
  "fetched_ok env jobs = filter (\<lambda>(url, save_path). icon_try_body env url save_path = Inr ()) jobs"

subsection \<open>The main program\<close>

text \<open>
  The environment of a run: the value of \<^verbatim>\<open>os.getenv('GITHUB_REPOSITORY')\<close>; for each
  playlist URL what lines 74-76 give, the exception raised by \<^verbatim>\<open>requests.get\<close> or
  \<^verbatim>\<open>raise_for_status\<close> or else the list \<^verbatim>\<open>response.text.splitlines()\<close>; and the
  environment of the download phase. The calls on the local file system in \<^verbatim>\<open>main\<close>
  (creating the three directories, writing a playlist) are taken to succeed.
\<close>

record main_env =
  GITHUB_REPOSITORY :: "string option"
  http_get :: "string \<Rightarrow> py_exn + string list"
  downloads :: download_env

text \<open>
  The state of \<^verbatim>\<open>main\<close> between two playlists: the files written to the output
  directory, by name and content in the order of writing, \<^verbatim>\<open>processed_files\<close>, and the
  dictionary \<^verbatim>\<open>original_icons\<close>.
\<close>

record main_state =
  written :: "(string \<times> string) list"
  processed_files :: "string list"
  icons :: "(string, py_path) dict"

text \<open>
  The body of the loop of line 69 for one URL. \<^verbatim>\<open>except requests.RequestException\<close>
  (line 112) catches that class only; any other exception leaves \<^verbatim>\<open>main\<close>.
\<close>

definition process_playlist ::
  "main_env \<Rightarrow> main_state \<Rightarrow> string \<Rightarrow> main_state \<times> py_exn option"
where
  "process_playlist env st url =
     (let filename = url_basename url
      in case http_get env url of
           Inl e \<Rightarrow> if e = RequestException then (st, None) else (st, Some e)
         | Inr playlist_lines \<Rightarrow>
             (let r = process_lines (icons st) playlist_lines;
                  playlist_content = str_join [CHR 0x0A] (processed_lines r)
              in (\<lparr>written = written st @ [(filename, playlist_content)],
                   processed_files = processed_files st @ [filename],
                   icons = original_icons r\<rparr>, None)))"

text \<open>The loop of line 69: an exception that is not caught ends it in the state reached.\<close>

fun process_playlists ::
  "main_env \<Rightarrow> main_state \<Rightarrow> string list \<Rightarrow> main_state \<times> py_exn option"
where
  "process_playlists env st [] = (st, None)"
| "process_playlists env st (url # urls) =
     (case process_playlist env st url of
        (st', Some e) \<Rightarrow> (st', Some e)
      | (st', None) \<Rightarrow> process_playlists env st' urls)"

text \<open>
  \<^verbatim>\<open>main\<close> (lines 50-118): the state after the playlists, and how the run ends: with an
  exception, or normally with the tally of the download phase when there was one.
  Without the repository name nothing is done at all.
\<close>

definition main :: "main_env \<Rightarrow> main_state \<times> (py_exn + nat option)" where
  "main env =
     (let st0 = \<lparr>written = [], processed_files = [], icons = []\<rparr>
      in case GITHUB_REPOSITORY env of
           None \<Rightarrow> (st0, Inl ValueError)
         | Some repo_name \<Rightarrow>
             if repo_name = [] then (st0, Inl ValueError)
             else (case process_playlists env st0 PLAYLIST_URLS of
                     (st, Some e) \<Rightarrow> (st, Inl e)
                   | (st, None) \<Rightarrow>
                       if length (icons st) \<noteq> 0 then
                         (case run_download_worker (downloads env) (icons st) of
                            Inl e \<Rightarrow> (st, Inl e)
                          | Inr total_downloaded \<Rightarrow> (st, Inr (Some total_downloaded)))
                       else (st, Inr None)))"

section \<open>The batch partition\<close>

lemma py_range_Nil: "stop \<le> start \<Longrightarrow> py_range start stop step = []"
  by (simp add: py_range.simps)

lemma py_range_Cons:
  "0 < step \<Longrightarrow> start < stop \<Longrightarrow>
   py_range start stop step = start # py_range (start + step) stop step"
  by (subst py_range.simps) simp

lemma py_range_empty_iff: "0 < step \<Longrightarrow> py_range start stop step = [] \<longleftrightarrow> stop \<le> start"
  by (subst py_range.simps) simp

lemma concat_slices:
  "0 < n \<Longrightarrow>
   concat (map (\<lambda>i. py_slice xs i (i + n)) (py_range k (length xs) n)) = drop k xs"
proof (induction k "length xs" n rule: py_range.induct)
  case (1 start step)
  show ?case
  proof (cases "length xs \<le> start")
    case True
    then show ?thesis by (simp add: py_range_Nil)
  next
    case False
    then have lt: "start < length xs" by simp
    have ih: "concat (map (\<lambda>i. py_slice xs i (i + step)) (py_range (start + step) (length xs) step))
        = drop (start + step) xs"
      using "1.hyps" "1.prems" False by simp
    have "take step (drop start xs) @ drop (start + step) xs = drop start xs"
      by (metis add.commute append_take_drop_id drop_drop)
    then show ?thesis
      using lt "1.prems" ih by (simp add: py_range_Cons py_slice_def)
  qed
qed

lemma slices_inner_full:
  "0 < n \<Longrightarrow>
   \<forall>i \<in> set (butlast (py_range k len n)). i + n < len"
proof (induction k len n rule: py_range.induct)
  case (1 start stop step)
  show ?case
  proof (cases "stop \<le> start")
    case True
    then show ?thesis by (simp add: py_range_Nil)
  next
    case False
    then have lt: "start < stop" by simp
    have ih: "\<forall>i \<in> set (butlast (py_range (start + step) stop step)). i + step < stop"
      using "1.IH" "1.prems" False by simp
    show ?thesis
      using lt "1.prems" ih
      by (auto simp: py_range_Cons [of step start stop] py_range_empty_iff)
  qed
qed

lemma py_range_bounds:
  "0 < n \<Longrightarrow> \<forall>i \<in> set (py_range k len n). i < len"
proof (induction k len n rule: py_range.induct)
  case (1 start stop step)
  show ?case
  proof (cases "stop \<le> start")
    case True
    then show ?thesis by (simp add: py_range_Nil)
  next
    case False
    then show ?thesis
      using "1.IH" "1.prems" by (auto simp: py_range_Cons [of step start stop])
  qed
qed

lemma length_py_slice: "length (py_slice xs i (i + n)) = min n (length xs - i)"
  by (simp add: py_slice_def)

text \<open>
  Claim C6. Concatenating the batches in submission order gives back the job list;
  every batch but the last holds exactly \<open>batch_size = 50\<close> jobs, and the last one,
  when there is one, holds between 1 and 50.
\<close>

theorem batches_partition:
  "concat (make_batches items) = items \<and>
   (\<forall>b \<in> set (butlast (make_batches items)). length b = batch_size) \<and>
   (make_batches items \<noteq> [] \<longrightarrow>
      1 \<le> length (last (make_batches items)) \<and>
      length (last (make_batches items)) \<le> batch_size) \<and>
   batch_size = 50"
proof -
  have pos: "0 < batch_size" by (simp add: batch_size_def)
  let ?f = "\<lambda>i. py_slice items i (i + batch_size)"
  let ?r = "py_range 0 (length items) batch_size"
  have c: "concat (make_batches items) = items"
    using concat_slices [OF pos, of items 0] by (simp add: make_batches_def)
  have inner: "\<forall>b \<in> set (butlast (make_batches items)). length b = batch_size"
  proof
    fix b assume "b \<in> set (butlast (make_batches items))"
    then obtain i where i: "i \<in> set (butlast ?r)" and b: "b = ?f i"
      by (auto simp: make_batches_def map_butlast [symmetric])
    from i slices_inner_full [OF pos, of 0 "length items"]
    have "i + batch_size < length items" by blast
    then show "length b = batch_size"
      by (simp add: b length_py_slice)
  qed
  have lst: "1 \<le> length (last (make_batches items)) \<and>
      length (last (make_batches items)) \<le> batch_size" if ne: "make_batches items \<noteq> []"
  proof -
    from ne have rne: "?r \<noteq> []" by (simp add: make_batches_def)
    then have l: "last (make_batches items) = ?f (last ?r)"
      by (simp add: make_batches_def last_map)
    from rne have "last ?r \<in> set ?r" by simp
    with py_range_bounds [OF pos, of 0 "length items"]
    have "last ?r < length items" by blast
    then show ?thesis
      using pos by (simp add: l length_py_slice)
  qed
  show ?thesis
    using c inner lst by (simp add: batch_size_def)
qed

theorem batches_partition_witness:
  "make_batches (map Suc [0..<101]) \<noteq> [] \<and>
   concat (make_batches (map Suc [0..<101])) = map Suc [0..<101] \<and>
   map length (butlast (make_batches (map Suc [0..<101]))) = [50, 50] \<and>
   length (last (make_batches (map Suc [0..<101]))) = 1"
proof -
  have e: "make_batches (map Suc [0..<101]) =
      [map Suc [0..<50], map Suc [50..<100], [101]]"
    by code_simp
  have c: "concat (make_batches (map Suc [0..<101])) = map Suc [0..<101]"
    using batches_partition [of "map Suc [0..<101]"] by blast
  have l: "map length (butlast [map Suc [0..<50], map Suc [50..<100], [101::nat]]) = [50, 50]"
    by simp
  show ?thesis
    using c l unfolding e by simp
qed

section \<open>Strings and the icon pattern\<close>

lemma strip_prefix_Some_iff: "strip_prefix p s = Some r \<longleftrightarrow> s = p @ r"
  by (induction p s rule: strip_prefix.induct) auto

lemma strip_prefix_append: "strip_prefix p (p @ r) = Some r"
  by (simp add: strip_prefix_Some_iff)

lemma str_replace_Nil: "old \<noteq> [] \<Longrightarrow> str_replace old new [] = []"
  by (subst str_replace.simps) (cases old; simp)

lemma str_replace_prefix:
  "old \<noteq> [] \<Longrightarrow> str_replace old new (old @ r) = new @ str_replace old new r"
  by (subst str_replace.simps) (simp add: strip_prefix_append)

lemma str_replace_Cons_no:
  "old \<noteq> [] \<Longrightarrow> strip_prefix old (c # cs) = None \<Longrightarrow>
   str_replace old new (c # cs) = c # str_replace old new cs"
  by (subst str_replace.simps) simp

lemma strip_prefix_sep:
  assumes "q \<notin> set old" "old \<noteq> []"
  shows "strip_prefix old (A @ q # B) =
     (case strip_prefix old A of Some r \<Rightarrow> Some (r @ q # B) | None \<Rightarrow> None)"
proof (cases "strip_prefix old A")
  case (Some r)
  then have "A = old @ r" by (simp add: strip_prefix_Some_iff)
  then show ?thesis by (simp add: strip_prefix_append)
next
  case None
  have "strip_prefix old (A @ q # B) = None"
  proof (rule ccontr)
    assume "strip_prefix old (A @ q # B) \<noteq> None"
    then obtain r where "A @ q # B = old @ r"
      by (auto simp: strip_prefix_Some_iff)
    then consider us where "A = old @ us" | us where "old = A @ q # us"
      by (auto simp: append_eq_append_conv2 Cons_eq_append_conv)
    then show False
    proof cases
      case 1
      then show ?thesis using None by (simp add: strip_prefix_append)
    next
      case 2
      then show ?thesis using assms by auto
    qed
  qed
  then show ?thesis using None by simp
qed

lemma str_replace_sep:
  assumes "q \<notin> set old" "old \<noteq> []"
  shows "str_replace old new (A @ q # B) = str_replace old new A @ q # str_replace old new B"
proof (induction A rule: length_induct)
  case (1 A)
  show ?case
  proof (cases "strip_prefix old A")
    case (Some r)
    then have A: "A = old @ r" by (simp add: strip_prefix_Some_iff)
    have "length r < length A" using A assms by simp
    with 1 have "str_replace old new (r @ q # B) = str_replace old new r @ q # str_replace old new B"
      by blast
    then show ?thesis
      using assms by (simp add: A str_replace_prefix)
  next
    case None
    show ?thesis
    proof (cases A)
      case Nil
      have "strip_prefix old (q # B) = None"
        using assms by (cases old) auto
      then show ?thesis
        using assms Nil by (simp add: str_replace_Cons_no str_replace_Nil)
    next
      case (Cons c cs)
      have n: "strip_prefix old (c # cs @ q # B) = None"
        using strip_prefix_sep [OF assms, of A B] None Cons by simp
      have "length cs < length A" using Cons by simp
      with 1 have "str_replace old new (cs @ q # B) = str_replace old new cs @ q # str_replace old new B"
        by blast
      then show ?thesis
        using assms None Cons n by (simp add: str_replace_Cons_no)
    qed
  qed
qed

lemma str_contains_append: "str_contains sub (pre @ sub @ post)"
proof (induction pre)
  case Nil
  have sp: "strip_prefix sub (sub @ post) \<noteq> None" by (simp add: strip_prefix_append)
  show ?case
  proof (cases "sub @ post")
    case Nil
    then show ?thesis by simp
  next
    case (Cons a l)
    with sp show ?thesis by simp
  qed
next
  case (Cons a pre)
  then show ?case by simp
qed

lemma match_optional_s_D:
  "match_optional_s r = (a, b) \<Longrightarrow> r = a @ b \<and> (a = [] \<or> a = ''s'')"
  by (auto simp: match_optional_s_def split: list.splits if_splits)

lemma match_here_SomeD:
  assumes "match_here s = Some (u, p)"
  shows "\<exists>scheme post. s = ''tvg-logo='' @ [dquote] @ u @ dquote # post \<and>
     u = scheme @ ''://epg.one/img/'' @ p \<and> (scheme = ''http'' \<or> scheme = ''https'') \<and>
     p \<noteq> [] \<and> dquote \<notin> set p"
proof -
  from assms obtain r1 r2 opt_s r3 r4 where
    r1: "strip_prefix (''tvg-logo='' @ [dquote]) s = Some r1" and
    r2: "strip_prefix ''http'' r1 = Some r2" and
    r3: "match_optional_s r2 = (opt_s, r3)" and
    r4: "strip_prefix ''://epg.one/img/'' r3 = Some r4" and
    ne: "takeWhile (\<lambda>c. c \<noteq> dquote) r4 \<noteq> []" "dropWhile (\<lambda>c. c \<noteq> dquote) r4 \<noteq> []" and
    u: "u = ''http'' @ opt_s @ ''://epg.one/img/'' @ takeWhile (\<lambda>c. c \<noteq> dquote) r4" and
    p: "p = takeWhile (\<lambda>c. c \<noteq> dquote) r4"
    unfolding match_here_def Let_def
    by (auto split: option.splits prod.splits if_splits)
  let ?r5 = "dropWhile (\<lambda>c. c \<noteq> dquote) r4"
  from ne obtain post where post: "?r5 = dquote # post"
    by (metis (mono_tags, lifting) hd_dropWhile list.exhaust_sel)
  have r4eq: "r4 = p @ dquote # post"
    using post p by (metis takeWhile_dropWhile_id)
  have nq: "dquote \<notin> set p"
    unfolding p by (auto dest: set_takeWhileD)
  have e1: "s = (''tvg-logo='' @ [dquote]) @ r1" using r1 by (simp only: strip_prefix_Some_iff)
  have e2: "r1 = ''http'' @ r2" using r2 by (simp only: strip_prefix_Some_iff)
  have e3: "r2 = opt_s @ r3" and os: "opt_s = [] \<or> opt_s = ''s''"
    using match_optional_s_D [OF r3] by simp_all
  have e4: "r3 = ''://epg.one/img/'' @ r4" using r4 by (simp only: strip_prefix_Some_iff)
  have u': "u = (''http'' @ opt_s) @ ''://epg.one/img/'' @ p"
    using u p by simp
  have "s = ''tvg-logo='' @ [dquote] @ ((''http'' @ opt_s) @ ''://epg.one/img/'' @ p) @ dquote # post"
    using e1 e2 e3 e4 r4eq by simp
  then have "s = ''tvg-logo='' @ [dquote] @ u @ dquote # post"
    using u' by simp
  moreover note u'
  moreover have "''http'' @ opt_s = ''http'' \<or> ''http'' @ opt_s = ''https''"
    using os by auto
  ultimately show ?thesis
    using ne p nq by blast
qed

lemma re_search_SomeD:
  "re_search s = Some (u, p) \<Longrightarrow>
   \<exists>pre scheme post. s = pre @ ''tvg-logo='' @ [dquote] @ u @ dquote # post \<and>
     u = scheme @ ''://epg.one/img/'' @ p \<and> (scheme = ''http'' \<or> scheme = ''https'') \<and>
     p \<noteq> [] \<and> dquote \<notin> set p"
proof (induction s)
  case Nil
  then show ?case using match_here_SomeD [of "[]" u p] by simp
next
  case (Cons c cs)
  show ?case
  proof (cases "match_here (c # cs)")
    case None
    with Cons.prems have "re_search cs = Some (u, p)" by simp
    from Cons.IH [OF this] obtain pre scheme post where
      "cs = pre @ ''tvg-logo='' @ [dquote] @ u @ dquote # post \<and>
       u = scheme @ ''://epg.one/img/'' @ p \<and> (scheme = ''http'' \<or> scheme = ''https'') \<and>
       p \<noteq> [] \<and> dquote \<notin> set p" by blast
    then have "c # cs = (c # pre) @ ''tvg-logo='' @ [dquote] @ u @ dquote # post \<and>
       u = scheme @ ''://epg.one/img/'' @ p \<and> (scheme = ''http'' \<or> scheme = ''https'') \<and>
       p \<noteq> [] \<and> dquote \<notin> set p" by simp
    then show ?thesis by blast
  next
    case (Some m)
    with Cons.prems have "match_here (c # cs) = Some (u, p)" by simp
    from match_here_SomeD [OF this] obtain scheme post where
      "c # cs = [] @ ''tvg-logo='' @ [dquote] @ u @ dquote # post \<and>
       u = scheme @ ''://epg.one/img/'' @ p \<and> (scheme = ''http'' \<or> scheme = ''https'') \<and>
       p \<noteq> [] \<and> dquote \<notin> set p" by auto
    then show ?thesis by blast
  qed
qed

text \<open>
  The converse: which lines the pattern matches. A line that holds, at any position,
  \<^verbatim>\<open>tvg-logo="\<close>, a scheme \<^verbatim>\<open>http\<close> or \<^verbatim>\<open>https\<close>, \<^verbatim>\<open>://epg.one/img/\<close>, a non-empty path without
  double quote and a double quote, has a match; the match is that one when no earlier
  position has one.
\<close>

lemma takeWhile_until_sep:
  "q \<notin> set p \<Longrightarrow> takeWhile (\<lambda>c. c \<noteq> q) (p @ q # post) = p \<and>
     dropWhile (\<lambda>c. c \<noteq> q) (p @ q # post) = q # post"
  by (induction p) auto

lemma match_here_complete:
  assumes "icon_path \<noteq> []" "dquote \<notin> set icon_path" "scheme = ''http'' \<or> scheme = ''https''"
  shows "match_here (''tvg-logo='' @ [dquote] @ scheme @ ''://epg.one/img/'' @ icon_path @ dquote # post)
      = Some (scheme @ ''://epg.one/img/'' @ icon_path, icon_path)"
proof -
  let ?r4 = "icon_path @ dquote # post"
  have tw: "takeWhile (\<lambda>c. c \<noteq> dquote) ?r4 = icon_path"
    and dw: "dropWhile (\<lambda>c. c \<noteq> dquote) ?r4 = dquote # post"
    using takeWhile_until_sep [OF assms(2), of post] by simp_all
  have r1: "strip_prefix (''tvg-logo='' @ [dquote])
        (''tvg-logo='' @ [dquote] @ scheme @ ''://epg.one/img/'' @ ?r4)
      = Some (scheme @ ''://epg.one/img/'' @ ?r4)"
    by (simp add: strip_prefix_Some_iff)
  from assms(3) show ?thesis
  proof
    assume s: "scheme = ''http''"
    have r2: "strip_prefix ''http'' (scheme @ ''://epg.one/img/'' @ ?r4) = Some (''://epg.one/img/'' @ ?r4)"
      by (simp add: s)
    have r3: "match_optional_s (''://epg.one/img/'' @ ?r4) = ([], ''://epg.one/img/'' @ ?r4)"
      by (simp add: match_optional_s_def)
    have r4: "strip_prefix ''://epg.one/img/'' (''://epg.one/img/'' @ ?r4) = Some ?r4"
      by (rule strip_prefix_append)
    show ?thesis
      unfolding match_here_def by (simp only: r1 r2 r3 r4 tw dw Let_def option.case prod.case)
        (simp add: assms(1) s)
  next
    assume s: "scheme = ''https''"
    have r2: "strip_prefix ''http'' (scheme @ ''://epg.one/img/'' @ ?r4)
        = Some (''s'' @ ''://epg.one/img/'' @ ?r4)"
      by (simp add: s)
    have r3: "match_optional_s (''s'' @ ''://epg.one/img/'' @ ?r4) = (''s'', ''://epg.one/img/'' @ ?r4)"
      by (simp add: match_optional_s_def)
    have r4: "strip_prefix ''://epg.one/img/'' (''://epg.one/img/'' @ ?r4) = Some ?r4"
      by (rule strip_prefix_append)
    show ?thesis
      unfolding match_here_def by (simp only: r1 r2 r3 r4 tw dw Let_def option.case prod.case)
        (simp add: assms(1) s)
  qed
qed

lemma re_search_append_Some:
  "match_here s = Some m \<Longrightarrow> \<exists>m'. re_search (pre @ s) = Some m'"
proof (induction pre)
  case Nil
  then show ?case by (cases s) simp_all
next
  case (Cons c pre)
  then show ?case by (cases "match_here (c # pre @ s)") simp_all
qed

lemma re_search_leftmost:
  "\<forall>i < length pre. match_here (drop i (pre @ s)) = None \<Longrightarrow>
   match_here s = Some m \<Longrightarrow> re_search (pre @ s) = Some m"
proof (induction pre)
  case Nil
  then show ?case by (cases s) simp_all
next
  case (Cons c pre)
  from Cons.prems(1) have h: "match_here (c # pre @ s) = None"
    by (metis append_Cons drop0 length_greater_0_conv list.distinct(1))
  have "\<forall>i < length pre. match_here (drop i (pre @ s)) = None"
  proof (intro allI impI)
    fix i assume "i < length pre"
    then have "Suc i < length (c # pre)" by simp
    with Cons.prems(1) have "match_here (drop (Suc i) ((c # pre) @ s)) = None" by blast
    then show "match_here (drop i (pre @ s)) = None" by simp
  qed
  from Cons.IH [OF this Cons.prems(2)] h show ?case by simp
qed

lemma re_search_matches:
  assumes "icon_path \<noteq> []" "dquote \<notin> set icon_path" "scheme = ''http'' \<or> scheme = ''https''"
  shows "\<exists>m. re_search (pre @ ''tvg-logo='' @ [dquote] @ scheme @ ''://epg.one/img/'' @ icon_path @
            dquote # post) = Some m"
  using re_search_append_Some [OF match_here_complete [OF assms]] .

section \<open>Rewriting a line\<close>

lemma rect_key_http:
  "str_replace ''/img/'' ''/img2/'' (''http'' @ ''://epg.one/img/'' @ p) =
   ''http'' @ ''://epg.one/img2/'' @ str_replace ''/img/'' ''/img2/'' p"
proof -
  have "str_replace ''/img/'' ''/img2/'' (''http://epg.one'' @ (''/img/'' @ p)) =
        ''http://epg.one'' @ str_replace ''/img/'' ''/img2/'' (''/img/'' @ p)"
    by (simp add: str_replace_Cons_no)
  also have "str_replace ''/img/'' ''/img2/'' (''/img/'' @ p) = ''/img2/'' @ str_replace ''/img/'' ''/img2/'' p"
    by (rule str_replace_prefix) simp
  finally show ?thesis by simp
qed

lemma rect_key_https:
  "str_replace ''/img/'' ''/img2/'' (''https'' @ ''://epg.one/img/'' @ p) =
   ''https'' @ ''://epg.one/img2/'' @ str_replace ''/img/'' ''/img2/'' p"
proof -
  have "str_replace ''/img/'' ''/img2/'' (''https://epg.one'' @ (''/img/'' @ p)) =
        ''https://epg.one'' @ str_replace ''/img/'' ''/img2/'' (''/img/'' @ p)"
    by (simp add: str_replace_Cons_no)
  also have "str_replace ''/img/'' ''/img2/'' (''/img/'' @ p) = ''/img2/'' @ str_replace ''/img/'' ''/img2/'' p"
    by (rule str_replace_prefix) simp
  finally show ?thesis by simp
qed

lemma rect_key:
  "scheme = ''http'' \<or> scheme = ''https'' \<Longrightarrow>
   str_replace ''/img/'' ''/img2/'' (scheme @ ''://epg.one/img/'' @ p) =
   scheme @ ''://epg.one/img2/'' @ str_replace ''/img/'' ''/img2/'' p"
  using rect_key_http rect_key_https by blast

lemma process_line_match:
  assumes "re_search line = Some (old_icon_url, icon_path)"
  shows "process_line st line =
     st\<lparr>original_icons :=
           dict_set (str_replace ''/img/'' ''/img2/'' old_icon_url) (path_div ICONS_RECT_DIR icon_path)
             (dict_set old_icon_url (path_div ICONS_SQR_DIR icon_path) (original_icons st)),
         processed_lines := processed_lines st @
           [str_replace old_icon_url (NEW_ICONS_BASE_URL_SQR @ icon_path) line],
         replacements_count := replacements_count st + 1\<rparr>"
proof -
  from re_search_SomeD [OF assms] obtain pre scheme post where
    "line = pre @ (''tvg-logo='' @ [dquote]) @ (old_icon_url @ dquote # post)" by auto
  then have "str_contains (''tvg-logo='' @ [dquote]) line"
    using str_contains_append by blast
  then show ?thesis
    using assms by (simp add: process_line_def Let_def)
qed

text \<open>
  What a line does in which the pattern matches, with the matched URL \<open>old_icon_url\<close>
  and the captured path \<open>icon_path\<close>: the line has the URL between two double quotes,
  and the rewritten line has \<open>NEW_ICONS_BASE_URL_SQR @ icon_path\<close> in its place (what
  stands before and after is the result of the same replacement). The line writes two
  mappings, under two different keys: the matched URL, mapped to the square directory
  joined with the path, and the URL that \<^verbatim>\<open>replace\<close> makes of it, mapped to the
  rectangular directory joined with the path. That second key starts with the same
  scheme and host followed by \<^verbatim>\<open>/img2/\<close>; what follows is the path after the same
  \<^verbatim>\<open>replace\<close>, which is the path itself only when it does not contain \<^verbatim>\<open>/img/\<close>.
\<close>

lemma icon_line_rewritten:
  assumes "re_search line = Some (old_icon_url, icon_path)"
  shows "(\<exists>pre post.
            line = pre @ dquote # old_icon_url @ dquote # post \<and>
            processed_lines (process_line st line) = processed_lines st @
              [str_replace old_icon_url (NEW_ICONS_BASE_URL_SQR @ icon_path) pre @
               dquote # (NEW_ICONS_BASE_URL_SQR @ icon_path) @
               dquote # str_replace old_icon_url (NEW_ICONS_BASE_URL_SQR @ icon_path) post]) \<and>
         original_icons (process_line st line) =
           dict_set (str_replace ''/img/'' ''/img2/'' old_icon_url) (path_div ICONS_RECT_DIR icon_path)
             (dict_set old_icon_url (path_div ICONS_SQR_DIR icon_path) (original_icons st)) \<and>
         original_icons (process_line (st\<lparr>original_icons := []\<rparr>) line) =
           [(old_icon_url, path_div ICONS_SQR_DIR icon_path),
            (str_replace ''/img/'' ''/img2/'' old_icon_url, path_div ICONS_RECT_DIR icon_path)] \<and>
         (\<exists>scheme. (scheme = ''http'' \<or> scheme = ''https'') \<and>
            old_icon_url = scheme @ ''://epg.one/img/'' @ icon_path \<and>
            str_replace ''/img/'' ''/img2/'' old_icon_url =
              scheme @ ''://epg.one/img2/'' @ str_replace ''/img/'' ''/img2/'' icon_path)"
proof -
  let ?new = "NEW_ICONS_BASE_URL_SQR @ icon_path"
  from re_search_SomeD [OF assms] obtain pre0 scheme post where
    line: "line = pre0 @ ''tvg-logo='' @ [dquote] @ old_icon_url @ dquote # post" and
    u: "old_icon_url = scheme @ ''://epg.one/img/'' @ icon_path" and
    sch: "scheme = ''http'' \<or> scheme = ''https''" and
    ne: "icon_path \<noteq> []" and nq: "dquote \<notin> set icon_path"
    by blast
  have dq: "dquote \<notin> set old_icon_url"
    using sch nq unfolding u by (auto simp: dquote_def)
  have one: "old_icon_url \<noteq> []" using sch u by auto
  define pre where "pre = pre0 @ ''tvg-logo=''"
  have line': "line = pre @ dquote # old_icon_url @ dquote # post"
    by (simp add: line pre_def)
  have "str_replace old_icon_url ?new line =
      str_replace old_icon_url ?new pre @ dquote # str_replace old_icon_url ?new (old_icon_url @ dquote # post)"
    unfolding line' by (rule str_replace_sep [OF dq one])
  also have "str_replace old_icon_url ?new (old_icon_url @ dquote # post) =
      str_replace old_icon_url ?new old_icon_url @ dquote # str_replace old_icon_url ?new post"
    by (rule str_replace_sep [OF dq one])
  also have "str_replace old_icon_url ?new old_icon_url = ?new"
    using str_replace_prefix [OF one, of ?new "[]"] one by (simp add: str_replace_Nil)
  finally have rw: "str_replace old_icon_url ?new line =
      str_replace old_icon_url ?new pre @ dquote # ?new @ dquote # str_replace old_icon_url ?new post"
    by simp
  have k: "str_replace ''/img/'' ''/img2/'' old_icon_url =
      scheme @ ''://epg.one/img2/'' @ str_replace ''/img/'' ''/img2/'' icon_path"
    unfolding u by (rule rect_key [OF sch])
  have neq: "old_icon_url \<noteq> str_replace ''/img/'' ''/img2/'' old_icon_url"
    unfolding k unfolding u by simp
  have p1: "\<exists>pre post.
            line = pre @ dquote # old_icon_url @ dquote # post \<and>
            processed_lines (process_line st line) = processed_lines st @
              [str_replace old_icon_url ?new pre @ dquote # ?new @
               dquote # str_replace old_icon_url ?new post]"
  proof (intro exI conjI)
    show "line = pre @ dquote # old_icon_url @ dquote # post" by (rule line')
    show "processed_lines (process_line st line) = processed_lines st @
              [str_replace old_icon_url ?new pre @ dquote # ?new @
               dquote # str_replace old_icon_url ?new post]"
      unfolding process_line_match [OF assms] rw by simp
  qed
  have p2: "original_icons (process_line st line) =
           dict_set (str_replace ''/img/'' ''/img2/'' old_icon_url) (path_div ICONS_RECT_DIR icon_path)
             (dict_set old_icon_url (path_div ICONS_SQR_DIR icon_path) (original_icons st))"
    by (simp add: process_line_match [OF assms])
  have p3: "original_icons (process_line (st\<lparr>original_icons := []\<rparr>) line) =
           [(old_icon_url, path_div ICONS_SQR_DIR icon_path),
            (str_replace ''/img/'' ''/img2/'' old_icon_url, path_div ICONS_RECT_DIR icon_path)]"
    using neq by (simp add: process_line_match [OF assms])
  have p4: "\<exists>scheme. (scheme = ''http'' \<or> scheme = ''https'') \<and>
            old_icon_url = scheme @ ''://epg.one/img/'' @ icon_path \<and>
            str_replace ''/img/'' ''/img2/'' old_icon_url =
              scheme @ ''://epg.one/img2/'' @ str_replace ''/img/'' ''/img2/'' icon_path"
    using sch u k by blast
  from p1 p2 p3 p4 show ?thesis by (intro conjI)
qed

text \<open>The line \<^verbatim>\<open>tvg-logo="http://epg.one/img/x.png"\<close> of the specification.\<close>

lemma icon_line_rewritten_example:
  \<open>re_search ''tvg-logo="http://epg.one/img/x.png"'' =
     Some (''http://epg.one/img/x.png'', ''x.png'') \<and>
   original_icons
     (process_line
        \<lparr>original_icons = [], processed_lines = [], replacements_count = 0, not_replaced_count = 0\<rparr>
        ''tvg-logo="http://epg.one/img/x.png"'') =
     [(''http://epg.one/img/x.png'', PyPath [] [''img'', ''x.png'']),
      (''http://epg.one/img2/x.png'', PyPath [] [''img2'', ''x.png''])] \<and>
   processed_lines
     (process_line
        \<lparr>original_icons = [], processed_lines = [], replacements_count = 0, not_replaced_count = 0\<rparr>
        ''tvg-logo="http://epg.one/img/x.png"'') =
     [''tvg-logo="https://raw.githubusercontent.com/KocourKuba/epgone_mirror/master/img/x.png"'']\<close>
proof -
  let ?st = "\<lparr>original_icons = [], processed_lines = [], replacements_count = 0, not_replaced_count = 0\<rparr>"
  let ?line = \<open>''tvg-logo="http://epg.one/img/x.png"''\<close>
  have s: "re_search ?line = Some (''http://epg.one/img/x.png'', ''x.png'')"
    by code_simp
  have i: "original_icons (process_line ?st ?line) =
      dict_set (str_replace ''/img/'' ''/img2/'' ''http://epg.one/img/x.png'')
        (path_div ICONS_RECT_DIR ''x.png'')
        (dict_set ''http://epg.one/img/x.png'' (path_div ICONS_SQR_DIR ''x.png'') (original_icons ?st))"
    using icon_line_rewritten [OF s, of ?st] by (elim conjE)
  have v: "dict_set (str_replace ''/img/'' ''/img2/'' ''http://epg.one/img/x.png'')
        (path_div ICONS_RECT_DIR ''x.png'')
        (dict_set ''http://epg.one/img/x.png'' (path_div ICONS_SQR_DIR ''x.png'') []) =
      [(''http://epg.one/img/x.png'', PyPath [] [''img'', ''x.png'']),
       (''http://epg.one/img2/x.png'', PyPath [] [''img2'', ''x.png''])]"
    by code_simp
  have pl: \<open>processed_lines (process_line ?st ?line) =
     [''tvg-logo="https://raw.githubusercontent.com/KocourKuba/epgone_mirror/master/img/x.png"'']\<close>
    by code_simp
  from i v have i': "original_icons (process_line ?st ?line) =
      [(''http://epg.one/img/x.png'', PyPath [] [''img'', ''x.png'']),
       (''http://epg.one/img2/x.png'', PyPath [] [''img2'', ''x.png''])]"
    by simp
  from s i' pl show ?thesis by (intro conjI)
qed

text \<open>
  Claim C2, at the line \<^verbatim>\<open>#EXTINF:-1 tvg-logo="https://epg.one/img/logos/img/x.png",News\<close>.
  The pattern matches with the path \<^verbatim>\<open>logos/img/x.png\<close>, the line is rewritten and two
  mappings are written, but the second is not keyed by the rectangular variant of the
  matched URL, \<^verbatim>\<open>https://epg.one/img2/logos/img/x.png\<close>: the \<^verbatim>\<open>replace\<close> of line 88 also
  changes the path, and the key is \<^verbatim>\<open>https://epg.one/img2/logos/img2/x.png\<close>. On a line
  whose path does not contain \<^verbatim>\<open>/img/\<close> the two keys are the two variants, as in the
  example above.
\<close>

theorem rect_key_follows_replace:
  \<open>re_search ''#EXTINF:-1 tvg-logo="https://epg.one/img/logos/img/x.png",News'' =
     Some (''https://epg.one/img/logos/img/x.png'', ''logos/img/x.png'') \<and>
   original_icons
     (process_line
        \<lparr>original_icons = [], processed_lines = [], replacements_count = 0, not_replaced_count = 0\<rparr>
        ''#EXTINF:-1 tvg-logo="https://epg.one/img/logos/img/x.png",News'') =
     [(''https://epg.one/img/logos/img/x.png'', PyPath [] [''img'', ''logos'', ''img'', ''x.png'']),
      (''https://epg.one/img2/logos/img2/x.png'', PyPath [] [''img2'', ''logos'', ''img'', ''x.png''])] \<and>
   ''https://epg.one/img2/logos/img2/x.png'' \<noteq> ''https://epg.one/img2/'' @ ''logos/img/x.png''\<close>
proof -
  have a: \<open>re_search ''#EXTINF:-1 tvg-logo="https://epg.one/img/logos/img/x.png",News'' =
     Some (''https://epg.one/img/logos/img/x.png'', ''logos/img/x.png'')\<close>
    by code_simp
  have b: \<open>original_icons
     (process_line
        \<lparr>original_icons = [], processed_lines = [], replacements_count = 0, not_replaced_count = 0\<rparr>
        ''#EXTINF:-1 tvg-logo="https://epg.one/img/logos/img/x.png",News'') =
     [(''https://epg.one/img/logos/img/x.png'', PyPath [] [''img'', ''logos'', ''img'', ''x.png'']),
      (''https://epg.one/img2/logos/img2/x.png'', PyPath [] [''img2'', ''logos'', ''img'', ''x.png''])]\<close>
    by code_simp
  have c: "''https://epg.one/img2/logos/img2/x.png'' \<noteq> ''https://epg.one/img2/'' @ ''logos/img/x.png''"
    by simp
  from a b c show ?thesis by (intro conjI)
qed

text \<open>
  Claim C4. A line without the text \<^verbatim>\<open>tvg-logo="\<close> is appended as it is, and nothing
  else of the state changes. A line that has the attribute and in which the pattern
  matches nowhere is appended as it is too, and \<open>original_icons\<close> stays as it was: no
  mapping is written.
\<close>

theorem other_lines_unchanged:
  "(\<not> str_contains (''tvg-logo='' @ [dquote]) line \<longrightarrow>
      process_line st line = st\<lparr>processed_lines := processed_lines st @ [line]\<rparr>) \<and>
   (str_contains (''tvg-logo='' @ [dquote]) line \<and> re_search line = None \<longrightarrow>
      processed_lines (process_line st line) = processed_lines st @ [line] \<and>
      original_icons (process_line st line) = original_icons st)"
  by (simp add: process_line_def)

theorem other_lines_unchanged_witness:
  \<open>\<not> str_contains (''tvg-logo='' @ [dquote]) ''#EXTM3U'' \<and>
   process_line
     \<lparr>original_icons = [], processed_lines = [], replacements_count = 0, not_replaced_count = 0\<rparr>
     ''#EXTM3U'' =
     \<lparr>original_icons = [], processed_lines = [''#EXTM3U''], replacements_count = 0,
      not_replaced_count = 0\<rparr> \<and>
   str_contains (''tvg-logo='' @ [dquote]) ''tvg-logo="http://x.one/img/a.png"'' \<and>
   re_search ''tvg-logo="http://x.one/img/a.png"'' = None \<and>
   processed_lines
     (process_line
        \<lparr>original_icons = [], processed_lines = [], replacements_count = 0, not_replaced_count = 0\<rparr>
        ''tvg-logo="http://x.one/img/a.png"'') = [''tvg-logo="http://x.one/img/a.png"''] \<and>
   original_icons
     (process_line
        \<lparr>original_icons = [], processed_lines = [], replacements_count = 0, not_replaced_count = 0\<rparr>
        ''tvg-logo="http://x.one/img/a.png"'') = []\<close>
proof -
  let ?st = "\<lparr>original_icons = [], processed_lines = [], replacements_count = 0, not_replaced_count = 0\<rparr>"
  have a: \<open>\<not> str_contains (''tvg-logo='' @ [dquote]) ''#EXTM3U''\<close>
    by code_simp
  have b: \<open>str_contains (''tvg-logo='' @ [dquote]) ''tvg-logo="http://x.one/img/a.png"''\<close>
    by code_simp
  have c: \<open>re_search ''tvg-logo="http://x.one/img/a.png"'' = None\<close>
    by code_simp
  have 1: "process_line ?st ''#EXTM3U'' = ?st\<lparr>processed_lines := processed_lines ?st @ [''#EXTM3U'']\<rparr>"
    using other_lines_unchanged [of "''#EXTM3U''" ?st] a by blast
  have 2: \<open>processed_lines (process_line ?st ''tvg-logo="http://x.one/img/a.png"'') =
        processed_lines ?st @ [''tvg-logo="http://x.one/img/a.png"''] \<and>
      original_icons (process_line ?st ''tvg-logo="http://x.one/img/a.png"'') = original_icons ?st\<close>
    using other_lines_unchanged [of \<open>''tvg-logo="http://x.one/img/a.png"''\<close> ?st] b c by blast
  from a b c 1 2 show ?thesis by simp
qed

text \<open>
  Claim C3, at the line \<^verbatim>\<open>tvg-logo="http://epg.one/img/a/img/b.png"\<close>, whose captured path
  \<^verbatim>\<open>a/img/b.png\<close> contains \<^verbatim>\<open>/img/\<close>. \<^verbatim>\<open>old_icon_url.replace("/img/", "/img2/")\<close> of line
  88 replaces every occurrence, so the key of the rectangular mapping is
  \<^verbatim>\<open>http://epg.one/img2/a/img2/b.png\<close>: its path is not the captured path, while the
  destination keeps the captured path (\<^verbatim>\<open>img2/a/img/b.png\<close>).
\<close>

theorem rect_url_rewrites_inside_path:
  \<open>original_icons
     (process_line
        \<lparr>original_icons = [], processed_lines = [], replacements_count = 0, not_replaced_count = 0\<rparr>
        ''tvg-logo="http://epg.one/img/a/img/b.png"'') =
     [(''http://epg.one/img/a/img/b.png'', PyPath [] [''img'', ''a'', ''img'', ''b.png'']),
      (''http://epg.one/img2/a/img2/b.png'', PyPath [] [''img2'', ''a'', ''img'', ''b.png''])]\<close>
  by code_simp

section \<open>The merged job set\<close>










text \<open>
  Two lines that reference different icon URLs, with the paths \<^verbatim>\<open>a/img/b.png\<close> and
  \<^verbatim>\<open>a/img2/b.png\<close>, both write the rectangular key \<^verbatim>\<open>http://epg.one/img2/a/img2/b.png\<close>
  (the \<^verbatim>\<open>replace\<close> of line 88 changes the first path): the destination kept under
  that key is that of the line that comes last.
\<close>

lemma rect_destination_depends_on_order:
  \<open>map_of (original_icons (process_lines []
       [''tvg-logo="http://epg.one/img/a/img/b.png"'',
        ''tvg-logo="http://epg.one/img/a/img2/b.png"'']))
     ''http://epg.one/img2/a/img2/b.png'' = Some (PyPath [] [''img2'', ''a'', ''img2'', ''b.png'']) \<and>
   map_of (original_icons (process_lines []
       [''tvg-logo="http://epg.one/img/a/img2/b.png"'',
        ''tvg-logo="http://epg.one/img/a/img/b.png"'']))
     ''http://epg.one/img2/a/img2/b.png'' = Some (PyPath [] [''img2'', ''a'', ''img'', ''b.png''])\<close>
  by code_simp












section \<open>The download phase\<close>

lemma batch_loop_eq:
  "batch_loop env fl k s jobs =
   Inr (s + length (fetched_ok env
          (take (length (takeWhile (\<lambda>j. \<not> fl j) [k..<k + length jobs])) jobs)))"
proof (induction jobs arbitrary: k s)
  case Nil
  then show ?case by (simp add: fetched_ok_def)
next
  case (Cons job rest)
  obtain url save_path where job: "job = (url, save_path)" by (cases job)
  have upt: "[k..<Suc (k + length rest)] = k # [Suc k..<Suc (k + length rest)]"
    by (subst upt_conv_Cons) (simp_all del: upt_Suc)
  show ?case
  proof (cases "fl k")
    case True
    then show ?thesis by (simp add: job upt fetched_ok_def del: upt_Suc)
  next
    case False
    show ?thesis
    proof (cases "icon_try_body env url save_path")
      case (Inl e)
      then show ?thesis
        using False Cons.IH [of "Suc k" s]
        by (simp add: job upt fetched_ok_def del: upt_Suc)
    next
      case (Inr u)
      then show ?thesis
        using False Cons.IH [of "Suc k" "s + 1"]
        by (simp add: job upt fetched_ok_def del: upt_Suc)
    qed
  qed
qed

lemma download_icon_batch_eq:
  "download_icon_batch env fl jobs =
   Inr (length (fetched_ok env
          (take (length (takeWhile (\<lambda>j. \<not> fl j) [0..<length jobs])) jobs)))"
  using batch_loop_eq [of env fl 0 0 jobs] by (simp add: download_icon_batch_def)

lemma length_fetched_ok_le: "length (fetched_ok env jobs) \<le> length jobs"
  by (simp add: fetched_ok_def)

lemma fetched_ok_append: "fetched_ok env (xs @ ys) = fetched_ok env xs @ fetched_ok env ys"
  by (simp add: fetched_ok_def)

lemma fetched_ok_concat: "fetched_ok env (concat bs) = concat (map (fetched_ok env) bs)"
  by (induction bs) (simp_all add: fetched_ok_append, simp add: fetched_ok_def)


lemma takeWhile_no_flag: "\<forall>j. \<not> fl j \<Longrightarrow> takeWhile (\<lambda>j. \<not> fl j) xs = xs"
  by (induction xs) simp_all

lemma download_icon_batch_no_flag:
  assumes "\<forall>j. \<not> fl j"
  shows "download_icon_batch env fl jobs = Inr (length (fetched_ok env jobs))"
proof -
  have tw: "takeWhile (\<lambda>j. \<not> fl j) [0..<length jobs] = [0..<length jobs]"
    by (rule takeWhile_no_flag) (rule assms)
  show ?thesis
    unfolding download_icon_batch_eq tw by simp
qed

lemma map_zip_upt_snd: "map (\<lambda>p. f (snd p)) (zip [0..<length bs] bs) = map f bs"
  by (rule nth_equalityI) simp_all

lemma batch_results_Inr:
  "batch_results env bs =
   map Inr (map (\<lambda>(i, b). length (fetched_ok env
                   (take (length (takeWhile (\<lambda>j. \<not> worker_flag env i j) [0..<length b])) b)))
              (zip [0..<length bs] bs))"
  by (simp add: batch_results_def download_icon_batch_eq split_def)

lemma batch_results_no_flag:
  assumes "\<forall>i j. \<not> worker_flag env i j"
  shows "batch_results env bs = map Inr (map (\<lambda>b. length (fetched_ok env b)) bs)"
proof -
  have "\<And>i b. download_icon_batch env (worker_flag env i) b = Inr (length (fetched_ok env b))"
    by (rule download_icon_batch_no_flag) (simp add: assms)
  then have "batch_results env bs =
        map (\<lambda>p. Inr (length (fetched_ok env (snd p)))) (zip [0..<length bs] bs)"
    by (simp add: batch_results_def split_def)
  also have "\<dots> = map (\<lambda>b. Inr (length (fetched_ok env b))) bs"
    by (rule map_zip_upt_snd)
  finally show ?thesis by simp
qed

lemma batch_counts_le:
  "sum_list (map (\<lambda>(i, b). length (fetched_ok env
                   (take (length (takeWhile (\<lambda>j. \<not> worker_flag env i j) [0..<length b])) b)))
              (zip [0..<length bs] bs)) \<le> length (concat bs)"
proof -
  let ?f = "\<lambda>(i, b). length (fetched_ok env
                   (take (length (takeWhile (\<lambda>j. \<not> worker_flag env i j) [0..<length b])) b))"
  have "sum_list (map ?f (zip [0..<length bs] bs)) \<le>
        sum_list (map (\<lambda>p. length (snd p)) (zip [0..<length bs] bs))"
  proof (rule sum_list_mono)
    fix p assume "p \<in> set (zip [0..<length bs] bs)"
    obtain i b where p: "p = (i, b)" by (cases p)
    have "length (fetched_ok env (take (length (takeWhile (\<lambda>j. \<not> worker_flag env i j) [0..<length b])) b))
        \<le> length (take (length (takeWhile (\<lambda>j. \<not> worker_flag env i j) [0..<length b])) b)"
      by (rule length_fetched_ok_le)
    then show "?f p \<le> length (snd p)" by (simp add: p)
  qed
  also have "map (\<lambda>p. length (snd p)) (zip [0..<length bs] bs) = map length bs"
    by (rule map_zip_upt_snd)
  also have "sum_list (map length bs) = length (concat bs)"
    by (simp add: length_concat)
  finally show ?thesis .
qed

lemma harvest_bound:
  "harvest_loop (map Inr cs) fl k tally evs = Inr n \<Longrightarrow>
   n \<le> tally + sum_list (map (\<lambda>i. if i < length cs then cs ! i else 0) (completed_indices evs))"
proof (induction evs arbitrary: k tally)
  case Nil
  then show ?case by simp
next
  case (Cons ev evs)
  show ?case
  proof (cases ev)
    case WaitTimeout
    with Cons.prems show ?thesis by simp
  next
    case (Completed i)
    show ?thesis
    proof (cases "fl k")
      case True
      with Cons.prems Completed show ?thesis by simp
    next
      case False
      show ?thesis
      proof (cases "i < length cs")
        case True
        with Cons.prems Completed False
        have "harvest_loop (map Inr cs) fl (Suc k) (tally + cs ! i) evs = Inr n" by simp
        from Cons.IH [OF this] show ?thesis using Completed True by simp
      next
        case False
        with Cons.prems Completed \<open>\<not> fl k\<close>
        have "harvest_loop (map Inr cs) fl (Suc k) tally evs = Inr n" by simp
        from Cons.IH [OF this] show ?thesis using Completed False by simp
      qed
    qed
  qed
qed

lemma harvest_all:
  "\<forall>j. \<not> fl j \<Longrightarrow>
   harvest_loop (map Inr cs) fl k tally (map Completed hs) =
   Inr (tally + sum_list (map (\<lambda>i. if i < length cs then cs ! i else 0) hs))"
  by (induction hs arbitrary: k tally) simp_all

lemma harvest_returns:
  "WaitTimeout \<notin> set evs \<Longrightarrow> \<exists>n. harvest_loop (map Inr cs) fl k tally evs = Inr n"
proof (induction evs arbitrary: k tally)
  case Nil
  then show ?case by simp
next
  case (Cons ev evs)
  then obtain i where "ev = Completed i" by (cases ev) auto
  with Cons show ?case by simp
qed

lemma sum_distinct_le:
  assumes "distinct idxs"
  shows "sum_list (map (\<lambda>i. if i < length cs then cs ! i else 0) idxs) \<le> sum_list (cs :: nat list)"
proof -
  let ?g = "\<lambda>i. if i < length cs then cs ! i else (0::nat)"
  have "sum_list (map ?g idxs) = sum ?g (set idxs)"
    using assms by (simp add: sum_list_distinct_conv_sum_set)
  also have "\<dots> \<le> sum ?g (set idxs \<union> {..<length cs})"
    by (rule sum_mono2) auto
  also have "\<dots> = sum ?g {..<length cs}"
    by (rule sum.mono_neutral_right) auto
  also have "\<dots> = (\<Sum>i = 0..<length cs. cs ! i)"
    by (simp add: atLeast0LessThan)
  also have "\<dots> = sum_list cs"
    by (simp add: sum_list_sum_nth)
  finally show ?thesis .
qed

lemma sum_perm_eq:
  assumes "mset hs = mset [0..<length cs]"
  shows "sum_list (map (\<lambda>i. if i < length cs then cs ! i else 0) hs) = sum_list (cs :: nat list)"
proof -
  let ?g = "\<lambda>i. if i < length cs then cs ! i else (0::nat)"
  have "mset (map ?g hs) = mset (map ?g [0..<length cs])"
    by (simp only: mset_map assms)
  then have "sum_mset (mset (map ?g hs)) = sum_mset (mset (map ?g [0..<length cs]))"
    by (rule arg_cong)
  then have "sum_list (map ?g hs) = sum_list (map ?g [0..<length cs])"
    by (simp only: sum_mset_sum_list)
  also have "map ?g [0..<length cs] = map (\<lambda>i. cs ! i) [0..<length cs]"
    by simp
  also have "\<dots> = cs" by (rule map_nth)
  finally show ?thesis .
qed


lemma run_download_worker_returns:
  "WaitTimeout \<notin> set (completions env) \<Longrightarrow> \<exists>n. run_download_worker env jobs = Inr n"
  unfolding run_download_worker_def Let_def batch_results_Inr
  by (rule harvest_returns)

lemma icon_try_body_ok_iff:
  "(icon_try_body env url save_path = Inr ()) =
   (mkdir_parent env save_path = None \<and> session_get env url = None \<and>
    write_file env url save_path = None)"
  by (simp add: icon_try_body_def split: option.splits)

lemma icon_try_body_raises:
  "mkdir_parent env save_path = Some e \<or> session_get env url = Some e \<or>
   write_file env url save_path = Some e \<Longrightarrow>
   \<exists>e'. icon_try_body env url save_path = Inl e'"
  by (auto simp: icon_try_body_def split: option.splits)

lemma fetched_ok_steps:
  "fetched_ok env jobs =
   filter (\<lambda>(url, save_path). mkdir_parent env save_path = None \<and> session_get env url = None \<and>
                               write_file env url save_path = None) jobs"
  by (simp add: fetched_ok_def icon_try_body_ok_iff)

text \<open>
  Claim C8. Whatever \<^verbatim>\<open>save_path.parent.mkdir\<close>, the request and the writing of the file
  raise, \<^verbatim>\<open>download_icon_batch\<close> returns a count and raises nothing: the count of the
  jobs for which none of the three steps raises, among the jobs that come before the
  first one at which the worker reads the flag as set (all the jobs when it never
  does). A job one of whose steps raises makes the body of the \<^verbatim>\<open>try\<close> raise, leaves the
  count as it is, and the loop goes on with the next job; a job none of whose steps
  raises adds one.
\<close>

theorem batch_absorbs_step_failures:
  "download_icon_batch env fl jobs =
     Inr (length (filter (\<lambda>(url, save_path). mkdir_parent env save_path = None \<and>
                            session_get env url = None \<and> write_file env url save_path = None)
            (take (length (takeWhile (\<lambda>j. \<not> fl j) [0..<length jobs])) jobs))) \<and>
   (\<exists>n. download_icon_batch env fl jobs = Inr n \<and> n \<le> length jobs) \<and>
   ((\<forall>j. \<not> fl j) \<longrightarrow>
      download_icon_batch env fl jobs =
        Inr (length (filter (\<lambda>(url, save_path). mkdir_parent env save_path = None \<and>
                               session_get env url = None \<and> write_file env url save_path = None)
                       jobs))) \<and>
   (\<not> fl k \<and> (mkdir_parent env save_path = Some e \<or> session_get env url = Some e \<or>
               write_file env url save_path = Some e) \<longrightarrow>
      (\<exists>e'. icon_try_body env url save_path = Inl e') \<and>
      batch_loop env fl k success ((url, save_path) # rest) =
      batch_loop env fl (Suc k) success rest) \<and>
   (\<not> fl k \<and> mkdir_parent env save_path = None \<and> session_get env url = None \<and>
    write_file env url save_path = None \<longrightarrow>
      batch_loop env fl k success ((url, save_path) # rest) =
      batch_loop env fl (Suc k) (success + 1) rest)"
proof -
  let ?ok = "\<lambda>(url, save_path). mkdir_parent env save_path = None \<and>
                            session_get env url = None \<and> write_file env url save_path = None"
  let ?n = "length (filter ?ok (take (length (takeWhile (\<lambda>j. \<not> fl j) [0..<length jobs])) jobs))"
  have a: "download_icon_batch env fl jobs = Inr ?n"
    unfolding download_icon_batch_eq fetched_ok_steps ..
  have "?n \<le> length (take (length (takeWhile (\<lambda>j. \<not> fl j) [0..<length jobs])) jobs)"
    by (rule length_filter_le)
  then have b: "?n \<le> length jobs" by simp
  have c: "(\<forall>j. \<not> fl j) \<longrightarrow> download_icon_batch env fl jobs = Inr (length (filter ?ok jobs))"
    using download_icon_batch_no_flag [of fl env jobs] unfolding fetched_ok_steps by blast
  have d: "\<not> fl k \<and> (mkdir_parent env save_path = Some e \<or> session_get env url = Some e \<or>
               write_file env url save_path = Some e) \<longrightarrow>
      (\<exists>e'. icon_try_body env url save_path = Inl e') \<and>
      batch_loop env fl k success ((url, save_path) # rest) =
      batch_loop env fl (Suc k) success rest"
  proof (intro impI, elim conjE)
    assume nf: "\<not> fl k" and r: "mkdir_parent env save_path = Some e \<or> session_get env url = Some e \<or>
               write_file env url save_path = Some e"
    from icon_try_body_raises [OF r] obtain e' where e': "icon_try_body env url save_path = Inl e'" ..
    then show "(\<exists>e'. icon_try_body env url save_path = Inl e') \<and>
      batch_loop env fl k success ((url, save_path) # rest) =
      batch_loop env fl (Suc k) success rest"
      using nf by simp
  qed
  have f: "\<not> fl k \<and> mkdir_parent env save_path = None \<and> session_get env url = None \<and>
    write_file env url save_path = None \<longrightarrow>
      batch_loop env fl k success ((url, save_path) # rest) =
      batch_loop env fl (Suc k) (success + 1) rest"
    by (simp add: icon_try_body_def)
  from a b have ab: "\<exists>n. download_icon_batch env fl jobs = Inr n \<and> n \<le> length jobs" by blast
  from a ab c d f show ?thesis by (intro conjI)
qed

theorem batch_absorbs_step_failures_witness:
  "mkdir_parent
     \<lparr>mkdir_parent = \<lambda>p. if p = PyPath [] [''img'', ''locked'', ''e.png''] then Some OSError else None,
      session_get = \<lambda>u. if u = ''http://epg.one/img/b.png'' then Some RequestException else None,
      write_file = \<lambda>u p. if u = ''http://epg.one/img/c.png'' then Some OSError else None,
      worker_flag = \<lambda>i j. False, main_flag = \<lambda>j. False, completions = []\<rparr>
     (PyPath [] [''img'', ''locked'', ''e.png'']) = Some OSError \<and>
   icon_try_body
     \<lparr>mkdir_parent = \<lambda>p. if p = PyPath [] [''img'', ''locked'', ''e.png''] then Some OSError else None,
      session_get = \<lambda>u. if u = ''http://epg.one/img/b.png'' then Some RequestException else None,
      write_file = \<lambda>u p. if u = ''http://epg.one/img/c.png'' then Some OSError else None,
      worker_flag = \<lambda>i j. False, main_flag = \<lambda>j. False, completions = []\<rparr>
     ''http://epg.one/img/locked/e.png'' (PyPath [] [''img'', ''locked'', ''e.png'']) = Inl OSError \<and>
   batch_loop
     \<lparr>mkdir_parent = \<lambda>p. if p = PyPath [] [''img'', ''locked'', ''e.png''] then Some OSError else None,
      session_get = \<lambda>u. if u = ''http://epg.one/img/b.png'' then Some RequestException else None,
      write_file = \<lambda>u p. if u = ''http://epg.one/img/c.png'' then Some OSError else None,
      worker_flag = \<lambda>i j. False, main_flag = \<lambda>j. False, completions = []\<rparr>
     (\<lambda>j. False) 1 1
     ((''http://epg.one/img/locked/e.png'', PyPath [] [''img'', ''locked'', ''e.png'']) #
      [(''http://epg.one/img/b.png'', PyPath [] [''img'', ''b.png'']),
      (''http://epg.one/img/c.png'', PyPath [] [''img'', ''c.png'']),
      (''http://epg.one/img/d.png'', PyPath [] [''img'', ''d.png''])]) =
   batch_loop
     \<lparr>mkdir_parent = \<lambda>p. if p = PyPath [] [''img'', ''locked'', ''e.png''] then Some OSError else None,
      session_get = \<lambda>u. if u = ''http://epg.one/img/b.png'' then Some RequestException else None,
      write_file = \<lambda>u p. if u = ''http://epg.one/img/c.png'' then Some OSError else None,
      worker_flag = \<lambda>i j. False, main_flag = \<lambda>j. False, completions = []\<rparr>
     (\<lambda>j. False) 2 1
     [(''http://epg.one/img/b.png'', PyPath [] [''img'', ''b.png'']),
      (''http://epg.one/img/c.png'', PyPath [] [''img'', ''c.png'']),
      (''http://epg.one/img/d.png'', PyPath [] [''img'', ''d.png''])] \<and>
   download_icon_batch
     \<lparr>mkdir_parent = \<lambda>p. if p = PyPath [] [''img'', ''locked'', ''e.png''] then Some OSError else None,
      session_get = \<lambda>u. if u = ''http://epg.one/img/b.png'' then Some RequestException else None,
      write_file = \<lambda>u p. if u = ''http://epg.one/img/c.png'' then Some OSError else None,
      worker_flag = \<lambda>i j. False, main_flag = \<lambda>j. False, completions = []\<rparr>
     (\<lambda>j. False)
     [(''http://epg.one/img/a.png'', PyPath [] [''img'', ''a.png'']),
      (''http://epg.one/img/locked/e.png'', PyPath [] [''img'', ''locked'', ''e.png'']),
      (''http://epg.one/img/b.png'', PyPath [] [''img'', ''b.png'']),
      (''http://epg.one/img/c.png'', PyPath [] [''img'', ''c.png'']),
      (''http://epg.one/img/d.png'', PyPath [] [''img'', ''d.png''])] = Inr 2"
proof -
  let ?env = "\<lparr>mkdir_parent = \<lambda>p. if p = PyPath [] [''img'', ''locked'', ''e.png''] then Some OSError else None,
      session_get = \<lambda>u. if u = ''http://epg.one/img/b.png'' then Some RequestException else None,
      write_file = \<lambda>u p. if u = ''http://epg.one/img/c.png'' then Some OSError else None,
      worker_flag = \<lambda>i j. False, main_flag = \<lambda>j. False, completions = []\<rparr>"
  let ?rest = "[(''http://epg.one/img/b.png'', PyPath [] [''img'', ''b.png'']),
      (''http://epg.one/img/c.png'', PyPath [] [''img'', ''c.png'']),
      (''http://epg.one/img/d.png'', PyPath [] [''img'', ''d.png''])]"
  let ?jobs = "[(''http://epg.one/img/a.png'', PyPath [] [''img'', ''a.png'']),
      (''http://epg.one/img/locked/e.png'', PyPath [] [''img'', ''locked'', ''e.png'']),
      (''http://epg.one/img/b.png'', PyPath [] [''img'', ''b.png'']),
      (''http://epg.one/img/c.png'', PyPath [] [''img'', ''c.png'']),
      (''http://epg.one/img/d.png'', PyPath [] [''img'', ''d.png''])]"
  let ?ok = "\<lambda>(url, save_path). mkdir_parent ?env save_path = None \<and>
                            session_get ?env url = None \<and> write_file ?env url save_path = None"
  have m: "mkdir_parent ?env (PyPath [] [''img'', ''locked'', ''e.png'']) = Some OSError"
    by simp
  have b: "icon_try_body ?env ''http://epg.one/img/locked/e.png''
      (PyPath [] [''img'', ''locked'', ''e.png'']) = Inl OSError"
    by (simp add: icon_try_body_def)
  have h: "\<not> (\<lambda>j. False) (1::nat) \<and>
      (mkdir_parent ?env (PyPath [] [''img'', ''locked'', ''e.png'']) = Some OSError \<or>
       session_get ?env ''http://epg.one/img/locked/e.png'' = Some OSError \<or>
       write_file ?env ''http://epg.one/img/locked/e.png''
         (PyPath [] [''img'', ''locked'', ''e.png'']) = Some OSError)"
    using m by simp
  note t = batch_absorbs_step_failures [of ?env "\<lambda>j. False" ?jobs 1
      "PyPath [] [''img'', ''locked'', ''e.png'']" OSError "''http://epg.one/img/locked/e.png''"
      1 ?rest]
  have c: "batch_loop ?env (\<lambda>j. False) 1 1
      ((''http://epg.one/img/locked/e.png'', PyPath [] [''img'', ''locked'', ''e.png'']) # ?rest) =
      batch_loop ?env (\<lambda>j. False) (Suc 1) 1 ?rest"
    by (rule t [THEN conjunct2, THEN conjunct2, THEN conjunct2, THEN conjunct1, THEN mp, OF h,
          THEN conjunct2])
  have f: "\<forall>j. \<not> (\<lambda>j. False) (j::nat)" by simp
  have "download_icon_batch ?env (\<lambda>j. False) ?jobs = Inr (length (filter ?ok ?jobs))"
    by (rule t [THEN conjunct2, THEN conjunct2, THEN conjunct1, THEN mp, OF f])
  moreover have "length (filter ?ok ?jobs) = 2"
    by simp
  ultimately have d: "download_icon_batch ?env (\<lambda>j. False) ?jobs = Inr 2"
    by simp
  have s2: "Suc 1 = (2::nat)" by simp
  from m b c d show ?thesis unfolding s2 by (intro conjI)
qed

text \<open>
  Claim C7. The iterator yields every future at most once. Then the tally that
  \<^verbatim>\<open>run_download_worker\<close> reports when it returns is at most the number of jobs. When
  no reader of the flag ever sees it set and the iterator yields every batch exactly
  once and never times out, the function returns, and the tally is the number of jobs
  whose download raises nothing.
\<close>

theorem succeeded_count_bounds:
  "(distinct (completed_indices (completions env)) \<longrightarrow>
      (\<forall>n. run_download_worker env jobs = Inr n \<longrightarrow> n \<le> length jobs)) \<and>
   ((\<forall>i j. \<not> worker_flag env i j) \<and> (\<forall>j. \<not> main_flag env j) \<and>
    completions env = map Completed hs \<and>
    mset hs = mset [0..<length (make_batches jobs)] \<longrightarrow>
      run_download_worker env jobs = Inr (length (fetched_ok env jobs)))"
proof (intro conjI impI allI)
  fix n
  assume d: "distinct (completed_indices (completions env))"
    and r: "run_download_worker env jobs = Inr n"
  let ?bs = "make_batches jobs"
  let ?cs = "map (\<lambda>(i, b). length (fetched_ok env
                   (take (length (takeWhile (\<lambda>j. \<not> worker_flag env i j) [0..<length b])) b)))
              (zip [0..<length ?bs] ?bs)"
  from r have "harvest_loop (map Inr ?cs) (main_flag env) 0 0 (completions env) = Inr n"
    by (simp add: run_download_worker_def Let_def batch_results_Inr)
  from harvest_bound [OF this]
  have "n \<le> sum_list (map (\<lambda>i. if i < length ?cs then ?cs ! i else 0)
                 (completed_indices (completions env)))"
    by simp
  also have "\<dots> \<le> sum_list ?cs"
    by (rule sum_distinct_le [OF d])
  also have "\<dots> \<le> length (concat ?bs)"
    by (rule batch_counts_le)
  also have "concat ?bs = jobs"
    using concat_slices [of batch_size jobs 0]
    by (simp add: make_batches_def batch_size_def)
  finally show "n \<le> length jobs" .
next
  assume a: "(\<forall>i j. \<not> worker_flag env i j) \<and> (\<forall>j. \<not> main_flag env j) \<and>
    completions env = map Completed hs \<and>
    mset hs = mset [0..<length (make_batches jobs)]"
  let ?bs = "make_batches jobs"
  let ?cs = "map (\<lambda>b. length (fetched_ok env b)) ?bs"
  from a have wf: "\<forall>i j. \<not> worker_flag env i j" and mf: "\<forall>j. \<not> main_flag env j"
    and ce: "completions env = map Completed hs"
    and ms: "mset hs = mset [0..<length ?cs]"
    by simp_all
  have c: "concat ?bs = jobs"
    using concat_slices [of batch_size jobs 0]
    by (simp add: make_batches_def batch_size_def)
  have "run_download_worker env jobs =
      harvest_loop (map Inr ?cs) (main_flag env) 0 0 (map Completed hs)"
    by (simp add: run_download_worker_def Let_def batch_results_no_flag [OF wf] ce)
  also have "\<dots> = Inr (0 + sum_list (map (\<lambda>i. if i < length ?cs then ?cs ! i else 0) hs))"
    by (rule harvest_all [OF mf])
  also have "sum_list (map (\<lambda>i. if i < length ?cs then ?cs ! i else 0) hs) = sum_list ?cs"
    by (rule sum_perm_eq [OF ms])
  also have "sum_list ?cs = length (concat (map (fetched_ok env) ?bs))"
    by (simp add: length_concat comp_def)
  also have "concat (map (fetched_ok env) ?bs) = fetched_ok env (concat ?bs)"
    by (simp add: fetched_ok_concat)
  finally show "run_download_worker env jobs = Inr (length (fetched_ok env jobs))"
    by (simp add: c)
qed

theorem succeeded_count_bounds_witness:
  "distinct (completed_indices [Completed 1, Completed 0]) \<and>
   length (map (\<lambda>i. (''http://epg.one/img/'' @ replicate i (CHR ''a''),
                       PyPath [] [''img'', replicate i (CHR ''a'')])) [1..<52]) = 51 \<and>
   length (fetched_ok
     \<lparr>mkdir_parent = \<lambda>p. None,
      session_get = \<lambda>u. if length u < 30 then None else Some RequestException,
      write_file = \<lambda>u p. None,
      worker_flag = \<lambda>i j. False, main_flag = \<lambda>j. False,
      completions = [Completed 1, Completed 0]\<rparr>
     (map (\<lambda>i. (''http://epg.one/img/'' @ replicate i (CHR ''a''),
                  PyPath [] [''img'', replicate i (CHR ''a'')])) [1..<52])) = 10 \<and>
   run_download_worker
     \<lparr>mkdir_parent = \<lambda>p. None,
      session_get = \<lambda>u. if length u < 30 then None else Some RequestException,
      write_file = \<lambda>u p. None,
      worker_flag = \<lambda>i j. False, main_flag = \<lambda>j. False,
      completions = [Completed 1, Completed 0]\<rparr>
     (map (\<lambda>i. (''http://epg.one/img/'' @ replicate i (CHR ''a''),
                  PyPath [] [''img'', replicate i (CHR ''a'')])) [1..<52]) = Inr 10"
proof -
  let ?env = "\<lparr>mkdir_parent = \<lambda>p. None,
      session_get = \<lambda>u. if length u < 30 then None else Some RequestException,
      write_file = \<lambda>u p. None,
      worker_flag = \<lambda>i j. False, main_flag = \<lambda>j. False,
      completions = [Completed 1, Completed 0]\<rparr>"
  let ?jobs = "map (\<lambda>i. (''http://epg.one/img/'' @ replicate i (CHR ''a''),
                  PyPath [] [''img'', replicate i (CHR ''a'')])) [1..<52]"
  have d: "distinct (completed_indices [Completed 1, Completed 0])" by simp
  have l: "length ?jobs = 51" by simp
  have nb: "length (make_batches ?jobs) = 2" by code_simp
  have ok: "length (fetched_ok ?env ?jobs) = 10" by code_simp
  have ms: "mset [1, 0] = mset [0..<length (make_batches ?jobs)]"
    unfolding nb by (simp add: upt_rec)
  have hyp: "(\<forall>i j. \<not> worker_flag ?env i j) \<and> (\<forall>j. \<not> main_flag ?env j) \<and>
    completions ?env = map Completed [1, 0] \<and>
    mset [1, 0] = mset [0..<length (make_batches ?jobs)]"
    using ms by simp
  have "run_download_worker ?env ?jobs = Inr (length (fetched_ok ?env ?jobs))"
    using succeeded_count_bounds [of ?env ?jobs "[1, 0]"] hyp by blast
  then have r: "run_download_worker ?env ?jobs = Inr 10"
    unfolding ok .
  from d l ok r show ?thesis by (intro conjI)
qed

text \<open>
  Claim C1, at one job whose batch is still running when the timeout of
  \<^verbatim>\<open>as_completed\<close> passes (the timeout of line 163 is the 300 seconds of the alarm of
  line 147, started just after it). The alarm has set the flag, but the iterator
  yields no future at which line 164 could read it: it raises \<^verbatim>\<open>TimeoutError\<close> in the
  \<^verbatim>\<open>for\<close> statement, outside the \<^verbatim>\<open>try\<close> of lines 166-178, and the exception leaves
  \<^verbatim>\<open>run_download_worker\<close>. Whenever the iterator does not time out, the function
  returns (\<open>run_download_worker_returns\<close> above).
\<close>

theorem harvest_timeout_escapes:
  "run_download_worker
     \<lparr>mkdir_parent = \<lambda>p. None, session_get = \<lambda>u. None, write_file = \<lambda>u p. None,
      worker_flag = \<lambda>i j. 0 < j, main_flag = \<lambda>j. True, completions = [WaitTimeout]\<rparr>
     [(''http://epg.one/img/x.png'', PyPath [] [''img'', ''x.png''])] = Inl TimeoutError"
  by (simp add: run_download_worker_def)


section \<open>The loop over the sources and the repository name\<close>

lemma process_playlist_failed:
  "http_get env url = Inl RequestException \<Longrightarrow> process_playlist env st url = (st, None)"
  by (simp add: process_playlist_def)

lemma process_playlist_fetched:
  "http_get env url = Inr ls \<Longrightarrow>
   process_playlist env st url =
     (\<lparr>written = written st @
         [(url_basename url, str_join [CHR 0x0A] (processed_lines (process_lines (icons st) ls)))],
       processed_files = processed_files st @ [url_basename url],
       icons = original_icons (process_lines (icons st) ls)\<rparr>, None)"
  by (simp add: process_playlist_def Let_def)

lemma process_playlists_skip:
  "process_playlists env st urls =
   process_playlists env st (filter (\<lambda>u. http_get env u \<noteq> Inl RequestException) urls)"
proof (induction urls arbitrary: st)
  case Nil
  then show ?case by simp
next
  case (Cons url urls)
  show ?case
  proof (cases "http_get env url = Inl RequestException")
    case True
    then show ?thesis
      using Cons.IH [of st] by (simp add: process_playlist_failed)
  next
    case False
    obtain st' r where p: "process_playlist env st url = (st', r)"
      by (cases "process_playlist env st url")
    show ?thesis
      using False p Cons.IH [of st'] by (cases r) simp_all
  qed
qed

lemma process_playlists_all:
  assumes "\<forall>u \<in> set urls. http_get env u = Inl RequestException \<or> (\<exists>ls. http_get env u = Inr ls)"
  shows "snd (process_playlists env st urls) = None \<and>
     processed_files (fst (process_playlists env st urls)) =
       processed_files st @
       map url_basename (filter (\<lambda>u. http_get env u \<noteq> Inl RequestException) urls) \<and>
     map fst (written (fst (process_playlists env st urls))) =
       map fst (written st) @
       map url_basename (filter (\<lambda>u. http_get env u \<noteq> Inl RequestException) urls) \<and>
     icons (fst (process_playlists env st urls)) =
       foldl (\<lambda>d u. case http_get env u of
                        Inr ls \<Rightarrow> original_icons (process_lines d ls)
                      | Inl e \<Rightarrow> d) (icons st) urls"
  using assms
proof (induction urls arbitrary: st)
  case Nil
  then show ?case by simp
next
  case (Cons url urls)
  from Cons.prems have rest:
    "\<forall>u \<in> set urls. http_get env u = Inl RequestException \<or> (\<exists>ls. http_get env u = Inr ls)"
    by simp
  from Cons.prems consider "http_get env url = Inl RequestException"
    | ls where "http_get env url = Inr ls" by auto
  then show ?case
  proof cases
    case 1
    then show ?thesis
      using Cons.IH [OF rest, of st] by (simp add: process_playlist_failed)
  next
    case 2
    let ?st' = "\<lparr>written = written st @
         [(url_basename url, str_join [CHR 0x0A] (processed_lines (process_lines (icons st) ls)))],
       processed_files = processed_files st @ [url_basename url],
       icons = original_icons (process_lines (icons st) ls)\<rparr>"
    show ?thesis
      using 2 Cons.IH [OF rest, of ?st'] by (simp add: process_playlist_fetched)
  qed
qed

text \<open>
  Claim C9. A playlist whose fetch raises a \<^verbatim>\<open>RequestException\<close> (a transport failure,
  or the \<^verbatim>\<open>HTTPError\<close> that \<^verbatim>\<open>raise_for_status\<close> makes of a status such as 404) leaves the
  state as it was and raises nothing: no file is written for it. The loop over the
  sources gives what it gives on the list without the failed sources. When every
  source either fails so or is fetched, the loop ends normally, the files written are
  those of the fetched sources in their order, and the dictionary holds the mappings of
  each of them.
\<close>

theorem playlist_failure_isolated:
  "(http_get env url = Inl RequestException \<longrightarrow> process_playlist env st url = (st, None)) \<and>
   process_playlists env st urls =
     process_playlists env st (filter (\<lambda>u. http_get env u \<noteq> Inl RequestException) urls) \<and>
   ((\<forall>u \<in> set urls. http_get env u = Inl RequestException \<or> (\<exists>ls. http_get env u = Inr ls)) \<longrightarrow>
      snd (process_playlists env st urls) = None \<and>
      processed_files (fst (process_playlists env st urls)) =
        processed_files st @
        map url_basename (filter (\<lambda>u. http_get env u \<noteq> Inl RequestException) urls) \<and>
      map fst (written (fst (process_playlists env st urls))) =
        map fst (written st) @
        map url_basename (filter (\<lambda>u. http_get env u \<noteq> Inl RequestException) urls) \<and>
      icons (fst (process_playlists env st urls)) =
        foldl (\<lambda>d u. case http_get env u of
                         Inr ls \<Rightarrow> original_icons (process_lines d ls)
                       | Inl e \<Rightarrow> d) (icons st) urls)"
proof (intro conjI impI)
  assume "http_get env url = Inl RequestException"
  then show "process_playlist env st url = (st, None)" by (rule process_playlist_failed)
next
  show "process_playlists env st urls =
     process_playlists env st (filter (\<lambda>u. http_get env u \<noteq> Inl RequestException) urls)"
    by (rule process_playlists_skip)
next
  assume a: "\<forall>u \<in> set urls. http_get env u = Inl RequestException \<or> (\<exists>ls. http_get env u = Inr ls)"
  note r = process_playlists_all [OF a, of st]
  from r show "snd (process_playlists env st urls) = None" by blast
  from r show "processed_files (fst (process_playlists env st urls)) =
        processed_files st @
        map url_basename (filter (\<lambda>u. http_get env u \<noteq> Inl RequestException) urls)" by blast
  from r show "map fst (written (fst (process_playlists env st urls))) =
        map fst (written st) @
        map url_basename (filter (\<lambda>u. http_get env u \<noteq> Inl RequestException) urls)" by blast
  from r show "icons (fst (process_playlists env st urls)) =
        foldl (\<lambda>d u. case http_get env u of
                         Inr ls \<Rightarrow> original_icons (process_lines d ls)
                       | Inl e \<Rightarrow> d) (icons st) urls" by blast
qed

theorem playlist_failure_isolated_witness:
  \<open>http_get
     \<lparr>GITHUB_REPOSITORY = Some ''KocourKuba/epgone_mirror'',
      http_get = \<lambda>u.
        if u = ''http://epg.one/edem_epg_ico2.m3u8'' then Inl RequestException
        else if u = ''http://epg.one/edem_epg_ico.m3u8''
          then Inr [''#EXTM3U'', ''tvg-logo="http://epg.one/img/x.png"'']
          else Inr [''tvg-logo="https://epg.one/img/y.png"''],
      downloads =
        \<lparr>mkdir_parent = \<lambda>p. None, session_get = \<lambda>u. None, write_file = \<lambda>u p. None,
         worker_flag = \<lambda>i j. False, main_flag = \<lambda>j. False,
         completions = [Completed 0]\<rparr>\<rparr> ''http://epg.one/edem_epg_ico2.m3u8'' = Inl RequestException \<and>
   processed_files (fst (process_playlists
     \<lparr>GITHUB_REPOSITORY = Some ''KocourKuba/epgone_mirror'',
      http_get = \<lambda>u.
        if u = ''http://epg.one/edem_epg_ico2.m3u8'' then Inl RequestException
        else if u = ''http://epg.one/edem_epg_ico.m3u8''
          then Inr [''#EXTM3U'', ''tvg-logo="http://epg.one/img/x.png"'']
          else Inr [''tvg-logo="https://epg.one/img/y.png"''],
      downloads =
        \<lparr>mkdir_parent = \<lambda>p. None, session_get = \<lambda>u. None, write_file = \<lambda>u p. None,
         worker_flag = \<lambda>i j. False, main_flag = \<lambda>j. False,
         completions = [Completed 0]\<rparr>\<rparr>
     \<lparr>written = [], processed_files = [], icons = []\<rparr> PLAYLIST_URLS)) =
     [''edem_epg_ico.m3u8'', ''edem_epg_ico3.m3u8''] \<and>
   main
     \<lparr>GITHUB_REPOSITORY = Some ''KocourKuba/epgone_mirror'',
      http_get = \<lambda>u.
        if u = ''http://epg.one/edem_epg_ico2.m3u8'' then Inl RequestException
        else if u = ''http://epg.one/edem_epg_ico.m3u8''
          then Inr [''#EXTM3U'', ''tvg-logo="http://epg.one/img/x.png"'']
          else Inr [''tvg-logo="https://epg.one/img/y.png"''],
      downloads =
        \<lparr>mkdir_parent = \<lambda>p. None, session_get = \<lambda>u. None, write_file = \<lambda>u p. None,
         worker_flag = \<lambda>i j. False, main_flag = \<lambda>j. False,
         completions = [Completed 0]\<rparr>\<rparr> =
     (\<lparr>written =
         [(''edem_epg_ico.m3u8'',
           str_join [CHR 0x0A]
             [''#EXTM3U'',
              ''tvg-logo="https://raw.githubusercontent.com/KocourKuba/epgone_mirror/master/img/x.png"'']),
          (''edem_epg_ico3.m3u8'',
           ''tvg-logo="https://raw.githubusercontent.com/KocourKuba/epgone_mirror/master/img/y.png"'')],
       processed_files = [''edem_epg_ico.m3u8'', ''edem_epg_ico3.m3u8''],
       icons =
         [(''http://epg.one/img/x.png'', PyPath [] [''img'', ''x.png'']),
          (''http://epg.one/img2/x.png'', PyPath [] [''img2'', ''x.png'']),
          (''https://epg.one/img/y.png'', PyPath [] [''img'', ''y.png'']),
          (''https://epg.one/img2/y.png'', PyPath [] [''img2'', ''y.png''])]\<rparr>,
      Inr (Some 4))\<close>
proof -
  let ?env = \<open>\<lparr>GITHUB_REPOSITORY = Some ''KocourKuba/epgone_mirror'',
      http_get = \<lambda>u.
        if u = ''http://epg.one/edem_epg_ico2.m3u8'' then Inl RequestException
        else if u = ''http://epg.one/edem_epg_ico.m3u8''
          then Inr [''#EXTM3U'', ''tvg-logo="http://epg.one/img/x.png"'']
          else Inr [''tvg-logo="https://epg.one/img/y.png"''],
      downloads =
        \<lparr>mkdir_parent = \<lambda>p. None, session_get = \<lambda>u. None, write_file = \<lambda>u p. None,
         worker_flag = \<lambda>i j. False, main_flag = \<lambda>j. False,
         completions = [Completed 0]\<rparr>\<rparr>\<close>
  let ?st0 = "\<lparr>written = [], processed_files = [], icons = []\<rparr>"
  have f: "http_get ?env ''http://epg.one/edem_epg_ico2.m3u8'' = Inl RequestException"
    by simp
  have h: "\<forall>u \<in> set PLAYLIST_URLS.
      http_get ?env u = Inl RequestException \<or> (\<exists>ls. http_get ?env u = Inr ls)"
    by simp
  have "processed_files (fst (process_playlists ?env ?st0 PLAYLIST_URLS)) =
      processed_files ?st0 @
      map url_basename (filter (\<lambda>u. http_get ?env u \<noteq> Inl RequestException) PLAYLIST_URLS)"
    using playlist_failure_isolated [of ?env _ ?st0 PLAYLIST_URLS] h by blast
  also have "\<dots> = [''edem_epg_ico.m3u8'', ''edem_epg_ico3.m3u8'']"
    by code_simp
  finally have p: "processed_files (fst (process_playlists ?env ?st0 PLAYLIST_URLS)) =
      [''edem_epg_ico.m3u8'', ''edem_epg_ico3.m3u8'']" .
  have m: \<open>main ?env =
     (\<lparr>written =
         [(''edem_epg_ico.m3u8'',
           str_join [CHR 0x0A]
             [''#EXTM3U'',
              ''tvg-logo="https://raw.githubusercontent.com/KocourKuba/epgone_mirror/master/img/x.png"'']),
          (''edem_epg_ico3.m3u8'',
           ''tvg-logo="https://raw.githubusercontent.com/KocourKuba/epgone_mirror/master/img/y.png"'')],
       processed_files = [''edem_epg_ico.m3u8'', ''edem_epg_ico3.m3u8''],
       icons =
         [(''http://epg.one/img/x.png'', PyPath [] [''img'', ''x.png'']),
          (''http://epg.one/img2/x.png'', PyPath [] [''img2'', ''x.png'']),
          (''https://epg.one/img/y.png'', PyPath [] [''img'', ''y.png'']),
          (''https://epg.one/img2/y.png'', PyPath [] [''img2'', ''y.png''])]\<rparr>,
      Inr (Some 4))\<close>
    by code_simp
  from f p m show ?thesis by (intro conjI)
qed

lemma process_playlist_repo:
  "process_playlist (env\<lparr>GITHUB_REPOSITORY := x\<rparr>) st url = process_playlist env st url"
  by (simp add: process_playlist_def)

lemma process_playlists_repo:
  "process_playlists (env\<lparr>GITHUB_REPOSITORY := x\<rparr>) st urls = process_playlists env st urls"
  by (induction urls arbitrary: st) (simp_all add: process_playlist_repo)

text \<open>
  Claim C10. Two runs that differ only in the value of \<^verbatim>\<open>GITHUB_REPOSITORY\<close>, not empty
  in either, give the same files, the same dictionary of jobs and the same end.
  Without the variable, or with the empty string, the run ends with \<^verbatim>\<open>ValueError\<close>
  before anything is fetched or written.
\<close>

theorem repository_name_only_gates:
  "(r1 \<noteq> [] \<and> r2 \<noteq> [] \<longrightarrow>
      main (env\<lparr>GITHUB_REPOSITORY := Some r1\<rparr>) = main (env\<lparr>GITHUB_REPOSITORY := Some r2\<rparr>)) \<and>
   main (env\<lparr>GITHUB_REPOSITORY := None\<rparr>) =
     (\<lparr>written = [], processed_files = [], icons = []\<rparr>, Inl ValueError) \<and>
   main (env\<lparr>GITHUB_REPOSITORY := Some []\<rparr>) =
     (\<lparr>written = [], processed_files = [], icons = []\<rparr>, Inl ValueError)"
  by (auto simp: main_def process_playlists_repo split: prod.splits option.splits)


theorem repository_name_only_gates_witness:
  \<open>''KocourKuba/epgone_mirror'' \<noteq> [] \<and> ''someone/fork'' \<noteq> [] \<and>
   main (\<lparr>GITHUB_REPOSITORY = None,
      http_get = \<lambda>u. Inr [''tvg-logo="http://epg.one/img/x.png"''],
      downloads =
        \<lparr>mkdir_parent = \<lambda>p. None, session_get = \<lambda>u. None, write_file = \<lambda>u p. None,
         worker_flag = \<lambda>i j. False, main_flag = \<lambda>j. False,
         completions = [Completed 0]\<rparr>\<rparr>\<lparr>GITHUB_REPOSITORY := Some ''KocourKuba/epgone_mirror''\<rparr>) =
   main (\<lparr>GITHUB_REPOSITORY = None,
      http_get = \<lambda>u. Inr [''tvg-logo="http://epg.one/img/x.png"''],
      downloads =
        \<lparr>mkdir_parent = \<lambda>p. None, session_get = \<lambda>u. None, write_file = \<lambda>u p. None,
         worker_flag = \<lambda>i j. False, main_flag = \<lambda>j. False,
         completions = [Completed 0]\<rparr>\<rparr>\<lparr>GITHUB_REPOSITORY := Some ''someone/fork''\<rparr>) \<and>
   snd (main (\<lparr>GITHUB_REPOSITORY = None,
      http_get = \<lambda>u. Inr [''tvg-logo="http://epg.one/img/x.png"''],
      downloads =
        \<lparr>mkdir_parent = \<lambda>p. None, session_get = \<lambda>u. None, write_file = \<lambda>u p. None,
         worker_flag = \<lambda>i j. False, main_flag = \<lambda>j. False,
         completions = [Completed 0]\<rparr>\<rparr>\<lparr>GITHUB_REPOSITORY := Some ''someone/fork''\<rparr>)) = Inr (Some 2)\<close>
proof -
  let ?env = \<open>\<lparr>GITHUB_REPOSITORY = None,
      http_get = \<lambda>u. Inr [''tvg-logo="http://epg.one/img/x.png"''],
      downloads =
        \<lparr>mkdir_parent = \<lambda>p. None, session_get = \<lambda>u. None, write_file = \<lambda>u p. None,
         worker_flag = \<lambda>i j. False, main_flag = \<lambda>j. False,
         completions = [Completed 0]\<rparr>\<rparr>\<close>
  have a: "''KocourKuba/epgone_mirror'' \<noteq> [] \<and> ''someone/fork'' \<noteq> []" by simp
  have e: "main (?env\<lparr>GITHUB_REPOSITORY := Some ''KocourKuba/epgone_mirror''\<rparr>) =
      main (?env\<lparr>GITHUB_REPOSITORY := Some ''someone/fork''\<rparr>)"
    using repository_name_only_gates [of "''KocourKuba/epgone_mirror''" "''someone/fork''" ?env] a
    by blast
  have r: "snd (main (?env\<lparr>GITHUB_REPOSITORY := Some ''someone/fork''\<rparr>)) = Inr (Some 2)"
    by code_simp
  from a e r show ?thesis by (intro conjI) simp_all
qed

end
